theory Spec2Isabelle
  imports Main
begin

section \<open>JavaScript strings\<close>

text \<open>
  A JavaScript string is modelled as a \<^typ>\<open>string\<close>: each \<^typ>\<open>char\<close> is one code unit
  below 256 (the Latin-1 range). Code units above that range are outside the model.
\<close>

definition isWhiteSpace :: "char \<Rightarrow> bool" where
  \<comment> \<open>the code units that \<open>String.prototype.trim\<close> removes, below 256:
      TAB, LF, VT, FF, CR, SPACE and NO-BREAK SPACE\<close>
  "isWhiteSpace c =
     (c \<in> {CHR 0x09, CHR 0x0A, CHR 0x0B, CHR 0x0C, CHR 0x0D, CHR 0x20, CHR 0xA0})"

definition isLineTerminator :: "char \<Rightarrow> bool" where
  \<comment> \<open>what the regular expression atom \<open>.\<close> does not match (no \<open>s\<close> flag)\<close>
  "isLineTerminator c = (c \<in> {CHR 0x0A, CHR 0x0D})"

definition isDigit :: "char \<Rightarrow> bool" where
  \<comment> \<open>the regular expression class \<open>\\d\<close>\<close>
  "isDigit c = (c \<in> set ''0123456789'')"

definition trim :: "string \<Rightarrow> string" where
  "trim s = rev (dropWhile isWhiteSpace (rev (dropWhile isWhiteSpace s)))"

definition startsWith :: "string \<Rightarrow> string \<Rightarrow> bool" where
  \<comment> \<open>\<open>s.startsWith(p)\<close>\<close>
  "startsWith s p = (take (length p) s = p)"

definition toLowerChar :: "char \<Rightarrow> char" where
  \<comment> \<open>\<open>A\<close>..\<open>Z\<close> and the Latin-1 capitals (0xC0..0xDE without the multiplication sign 0xD7)
      move up by 32; every other code unit below 256 is unchanged\<close>
  "toLowerChar c =
     (let n = of_char c :: nat in
      if (65 \<le> n \<and> n \<le> 90) \<or> (192 \<le> n \<and> n \<le> 222 \<and> n \<noteq> 215)
      then char_of (n + 32) else c)"

definition toLowerCase :: "string \<Rightarrow> string" where
  "toLowerCase s = map toLowerChar s"

section \<open>Regular expressions\<close>

text \<open>
  The fragment of regular expressions that the source uses in \<open>RegExp.prototype.test\<close>:
  literals, \<open>.*\<close>, concatenation and alternation, with no flags and no anchors.
\<close>

datatype regex =
    Lit string
  | DotStar
  | Seq regex regex
  | Alt regex regex

fun dotStarRests :: "string \<Rightarrow> string list" where
  \<comment> \<open>what can remain after \<open>.*\<close> has consumed a prefix free of line terminators\<close>
  "dotStarRests [] = [[]]"
| "dotStarRests (c # cs) = (c # cs) # (if isLineTerminator c then [] else dotStarRests cs)"

fun matchPrefix :: "regex \<Rightarrow> string \<Rightarrow> string list" where
  \<comment> \<open>every remainder of the string after a match of the expression at its start\<close>
  "matchPrefix (Lit l) s = (if take (length l) s = l then [drop (length l) s] else [])"
| "matchPrefix DotStar s = dotStarRests s"
| "matchPrefix (Seq r1 r2) s = concat (map (matchPrefix r2) (matchPrefix r1 s))"
| "matchPrefix (Alt r1 r2) s = matchPrefix r1 s @ matchPrefix r2 s"

fun test :: "regex \<Rightarrow> string \<Rightarrow> bool" where
  \<comment> \<open>\<open>r.test(s)\<close>: a match starting at some position of the string\<close>
  "test r [] = (matchPrefix r [] \<noteq> [])"
| "test r (c # cs) = (matchPrefix r (c # cs) \<noteq> [] \<or> test r cs)"

fun alts :: "regex list \<Rightarrow> regex" where
  \<comment> \<open>\<open>r1|r2|...|rn\<close>\<close>
  "alts [] = Lit []"
| "alts [r] = r"
| "alts (r # rs) = Alt r (alts rs)"



section \<open>Response classification\<close>

text \<open>
  The object that \<open>doRegisterCheck\<close> returns: \<open>{ banned, raw, status }\<close> or
  \<open>{ error, message }\<close>. A field that the object does not have is \<open>None\<close>.
\<close>

record check_result =
  banned :: "bool option"
  raw :: "string option"
  status :: "int option"
  error :: "string option"
  message :: "string option"

definition banned_re :: regex where
  \<comment> \<open>\<open>/banned|blocked|account suspended|account banned|forbidden/\<close>\<close>
  "banned_re = alts [Lit ''banned'', Lit ''blocked'', Lit ''account suspended'',
                     Lit ''account banned'', Lit ''forbidden'']"

definition ok_re :: regex where
  \<comment> \<open>\<open>/code.*ok|status.*ok|\"status\"\:\"ok\"|\"code\"\:\"0\"/\<close>\<close>
  "ok_re = alts [Seq (Lit ''code'') (Seq DotStar (Lit ''ok'')),
                 Seq (Lit ''status'') (Seq DotStar (Lit ''ok'')),
                 Lit [CHR 0x22, CHR ''s'', CHR ''t'', CHR ''a'', CHR ''t'', CHR ''u'', CHR ''s'',
                      CHR 0x22, CHR '':'', CHR 0x22, CHR ''o'', CHR ''k'', CHR 0x22],
                 Lit [CHR 0x22, CHR ''c'', CHR ''o'', CHR ''d'', CHR ''e'', CHR 0x22, CHR '':'',
                      CHR 0x22, CHR ''0'', CHR 0x22]]"

definition auth_re :: regex where
  \<comment> \<open>\<open>/forbidden|unauthorized|auth_failure|auth_failed|banned/\<close>\<close>
  "auth_re = alts [Lit ''forbidden'', Lit ''unauthorized'', Lit ''auth_failure'',
                   Lit ''auth_failed'', Lit ''banned'']"

definition verdict :: "bool \<Rightarrow> string \<Rightarrow> int \<Rightarrow> check_result" where
  \<comment> \<open>\<open>{ banned: b, raw: text, status: resp.status }\<close>\<close>
  "verdict b text st =
     \<lparr>banned = Some b, raw = Some text, status = Some st, error = None, message = None\<rparr>"

definition classify :: "int \<Rightarrow> string \<Rightarrow> check_result" where
  \<comment> \<open>the heuristics of \<open>doRegisterCheck\<close> on a response with status \<open>st\<close> and body \<open>text\<close>\<close>
  "classify st text =
     (let low = toLowerCase (if text = [] then [] else text) in
      if test banned_re low then verdict True text st
      else if test ok_re low then verdict False text st
      else if st \<ge> 400 \<and> st < 500 \<and> test auth_re low then verdict True text st
      else verdict False text st)"

section \<open>Number normalisation\<close>

record number_obj =
  cc :: string
  inPart :: string

definition digits_6_15 :: "string \<Rightarrow> bool" where
  \<comment> \<open>\<open>/^\\d{6,15}$/.test(str)\<close>; without the \<open>m\<close> flag \<open>$\<close> is the end of the input\<close>
  "digits_6_15 str = (6 \<le> length str \<and> length str \<le> 15 \<and> list_all isDigit str)"

definition normalizeNumber :: "string \<Rightarrow> number_obj option" where
  "normalizeNumber input =
     (if input = [] then None
      else
        let s = trim input;
            plus_s = (if startsWith s ''+'' then drop 1 s else s)
        in if \<not> digits_6_15 plus_s then None
           else
             let cc0 = take 2 plus_s;
                 cc1 = (if length plus_s < 8 then take 1 plus_s else cc0);
                 stripped = dropWhile (\<lambda>c. c = CHR ''0'') cc1;
                 cc2 = (if stripped = [] then take 1 plus_s else stripped);
                 inPart = drop (length cc2) plus_s
             in if inPart = [] then None
                else Some \<lparr>cc = cc2, inPart = inPart\<rparr>)"

text \<open>The digit sequence that \<open>normalizeNumber\<close> tests: the input trimmed, one leading \<open>+\<close> removed.\<close>

definition plus_of :: "string \<Rightarrow> string" where
  "plus_of input = (let s = trim input in if startsWith s ''+'' then drop 1 s else s)"

definition prefix_of :: "string \<Rightarrow> string" where
  \<comment> \<open>the extracted country-code prefix, before leading zeros are removed\<close>
  "prefix_of plus_s = (if 8 \<le> length plus_s then take 2 plus_s else take 1 plus_s)"

definition strip_zeros :: "string \<Rightarrow> string" where
  "strip_zeros p = dropWhile (\<lambda>c. c = CHR ''0'') p"

definition country_code :: "string \<Rightarrow> string" where
  \<comment> \<open>the prefix with its leading zeros removed, or the first digit when nothing is left\<close>
  "country_code plus_s =
     (let s = strip_zeros (prefix_of plus_s) in if s = [] then take 1 plus_s else s)"


section \<open>Configuration\<close>

text \<open>
  \<open>process.env\<close>: a variable that is not set is \<open>None\<close>.
\<close>

record process_env =
  env_PROXIES :: "string option"
  env_RATE_LIMIT_PER_MIN :: "string option"
  env_MAX_RETRIES :: "string option"
  env_EXPOSE_RAW :: "string option"

text \<open>
  The numbers that \<open>parseInt\<close> can return: an integer or \<open>NaN\<close>. (Integers beyond
  \<open>2^53\<close> are rounded by JavaScript; the model keeps them exact.)
\<close>

datatype jsnum = NaN | Num int

fun js_lt :: "int \<Rightarrow> jsnum \<Rightarrow> bool" where
  \<comment> \<open>\<open>a < b\<close>: every comparison with \<open>NaN\<close> is false\<close>
  "js_lt a NaN = False"
| "js_lt a (Num b) = (a < b)"

definition or_else :: "string option \<Rightarrow> string \<Rightarrow> string" where
  \<comment> \<open>\<open>a || b\<close> for a string \<open>a\<close> that may be undefined: the empty string is falsy\<close>
  "or_else a b = (case a of None \<Rightarrow> b | Some s \<Rightarrow> if s = [] then b else s)"

definition truthy :: "string option \<Rightarrow> bool" where
  "truthy a = (case a of None \<Rightarrow> False | Some s \<Rightarrow> s \<noteq> [])"

definition digit_val :: "char \<Rightarrow> nat" where
  "digit_val c = of_char c - 48"

definition parseInt10 :: "string \<Rightarrow> jsnum" where
  \<comment> \<open>\<open>parseInt(s, 10)\<close>: leading white space, an optional sign, the longest run of digits\<close>
  "parseInt10 s =
     (let s1 = dropWhile isWhiteSpace s;
          (neg, s2) = (case s1 of
                         [] \<Rightarrow> (False, [])
                       | c # cs \<Rightarrow> if c = CHR ''-'' then (True, cs)
                                  else if c = CHR ''+'' then (False, cs)
                                  else (False, s1));
          ds = takeWhile isDigit s2
      in if ds = [] then NaN
         else let v = int (foldl (\<lambda>n c. 10 * n + digit_val c) 0 ds)
              in Num (if neg then - v else v))"

definition DEFAULT_RATE_LIMIT :: "process_env \<Rightarrow> jsnum" where
  "DEFAULT_RATE_LIMIT E = parseInt10 (or_else (env_RATE_LIMIT_PER_MIN E) ''30'')"

definition MAX_RETRIES :: "process_env \<Rightarrow> jsnum" where
  "MAX_RETRIES E = parseInt10 (or_else (env_MAX_RETRIES E) ''2'')"

definition UA_LIST :: "string list" where
  "UA_LIST =
     [''WhatsApp/2.23.8.76 Android/13 Device/Pixel'',
      ''WhatsApp/2.22.18 Android/12 Device/Generic'',
      ''WhatsApp/2.21.23 Android/11 Device/Samsung'',
      ''Mozilla/5.0 (Linux; Android 11) AppleWebKit/537.36 (KHTML, like Gecko) WhatsApp/2.21.23'']"

definition MCC_OPTIONS :: "string list" where
  "MCC_OPTIONS = [''510'', ''440'', ''510'', ''520'', ''310'', ''404'', ''505'']"

definition MNC_OPTIONS :: "string list" where
  "MNC_OPTIONS = [''00'', ''01'', ''10'', ''20'', ''70'', ''01'']"

section \<open>Rate limiter\<close>

record rate_rec =
  count :: int
  windowStart :: int

type_synonym rate_map = "string \<rightharpoonup> rate_rec"

definition nowUnix :: "int \<Rightarrow> int" where
  \<comment> \<open>\<open>Math.floor(Date.now() / 1000)\<close>, for the clock reading \<open>ms\<close> in milliseconds\<close>
  "nowUnix ms = ms div 1000"

definition allowedByRateLimit ::
  "process_env \<Rightarrow> string \<Rightarrow> int \<Rightarrow> rate_map \<Rightarrow> bool \<times> rate_map" where
  "allowedByRateLimit E ip ms rateMap =
     (let windowLen = 60;
          limit = DEFAULT_RATE_LIMIT E;
          cur = nowUnix ms
      in case rateMap ip of
           None \<Rightarrow> (True, rateMap(ip \<mapsto> \<lparr>count = 1, windowStart = cur\<rparr>))
         | Some rec \<Rightarrow>
             if cur - windowStart rec \<ge> windowLen
             then (True, rateMap(ip \<mapsto> \<lparr>count = 1, windowStart = cur\<rparr>))
             else if js_lt (count rec) limit
             then (True, rateMap(ip \<mapsto> rec\<lparr>count := count rec + 1\<rparr>))
             else (False, rateMap))"

text \<open>A caller's successive calls, at the clock readings of the list, in order.\<close>

fun calls :: "process_env \<Rightarrow> string \<Rightarrow> int list \<Rightarrow> rate_map \<Rightarrow> bool list \<times> rate_map" where
  "calls E ip [] m = ([], m)"
| "calls E ip (t # ts) m =
     (let (ok, m1) = allowedByRateLimit E ip t m;
          (oks, m2) = calls E ip ts m1
      in (ok # oks, m2))"

section \<open>The host: randomness, transport, proxy agents\<close>

record request =
  endpoint :: string
  http_method :: string
  headers :: "(string \<times> string option) list"
  body :: "(string \<times> string) list"
  agent :: "string option"

text \<open>
  What the program does not compute itself:
  \<^item> \<open>random_floor i n\<close> is \<open>Math.floor(Math.random() * n)\<close> at the \<open>i\<close>-th call of
    \<open>Math.random\<close> in the process;
  \<^item> \<open>fetch k req\<close> is the outcome of the \<open>k\<close>-th call of \<open>fetch\<close> followed by
    \<open>resp.text()\<close>: \<open>Inr (status, text)\<close> for a response, \<open>Inl e\<close> when either rejects
    (also when the 12 second timer aborts the request), with \<open>e\<close> the text \<open>String(err)\<close>;
  \<^item> \<open>proxy_agent_ok url\<close> says that \<open>new HttpsProxyAgent(url)\<close> does not throw.
\<close>

record host =
  env :: process_env
  random_floor :: "nat \<Rightarrow> nat \<Rightarrow> nat"
  fetch :: "nat \<Rightarrow> request \<Rightarrow> string + (int \<times> string)"
  proxy_agent_ok :: "string \<Rightarrow> bool"

text \<open>
  The state of the process: the rate limiter's map, the number of calls of
  \<open>Math.random\<close> so far, and the requests handed to \<open>fetch\<close> so far, oldest first.
  An invocation of a handler is followed from its start to its end on its own; other
  invocations that run between its \<open>await\<close>s are not part of the model.
\<close>

record world =
  rateMap :: rate_map
  draws :: nat
  sent :: "request list"

definition pickRandom :: "host \<Rightarrow> 'a list \<Rightarrow> world \<Rightarrow> 'a option \<times> world" where
  \<comment> \<open>\<open>arr[Math.floor(Math.random() * arr.length)]\<close>; an index out of range reads \<open>undefined\<close>\<close>
  "pickRandom H arr w =
     (let i = random_floor H (draws w) (length arr)
      in (if i < length arr then Some (arr ! i) else None, w\<lparr>draws := draws w + 1\<rparr>))"

definition digit_char :: "nat \<Rightarrow> char" where
  "digit_char d = char_of (48 + d)"

function toString :: "nat \<Rightarrow> string" where
  "toString n = (if n < 10 then [digit_char n] else toString (n div 10) @ [digit_char (n mod 10)])"
  by pat_completeness auto
termination
  by (relation "measure id") auto

declare toString.simps [simp del]

definition buildFormBody ::
  "host \<Rightarrow> string \<Rightarrow> string \<Rightarrow> string \<Rightarrow> string option \<Rightarrow> string option \<Rightarrow> world
     \<Rightarrow> (string \<times> string) list \<times> world" where
  \<comment> \<open>the entries of the \<open>URLSearchParams\<close>, in order; their serialisation is not modelled\<close>
  "buildFormBody H cc_v inPart_v method_v mcc mnc w =
     (let params = [(''cc'', cc_v), (''in'', inPart_v), (''method'', method_v)]
                   @ (if truthy mcc then [(''mcc'', the mcc)] else [])
                   @ (if truthy mnc then [(''mnc'', the mnc)] else []);
          r = random_floor H (draws w) 1000000
      in (params @ [(''r'', toString r)], w\<lparr>draws := draws w + 1\<rparr>))"

definition backoff :: "host \<Rightarrow> world \<Rightarrow> nat \<times> world" where
  \<comment> \<open>the delay \<open>500 + Math.floor(Math.random() * 700)\<close> in milliseconds; waiting changes
      nothing but the number of draws\<close>
  "backoff H w = (500 + random_floor H (draws w) 700, w\<lparr>draws := draws w + 1\<rparr>)"

definition network_error :: "string \<Rightarrow> check_result" where
  \<comment> \<open>\<open>{ error: "network_error", message: String(err) }\<close>\<close>
  "network_error e =
     \<lparr>banned = None, raw = None, status = None,
      error = Some ''network_error'', message = Some e\<rparr>"

section \<open>The probe\<close>

function doRegisterCheck ::
  "host \<Rightarrow> number_obj \<Rightarrow> string option \<Rightarrow> nat \<Rightarrow> world \<Rightarrow> check_result \<times> world" where
  "doRegisterCheck H numberObj proxyUrl retries w =
     (let (ua, w1) = pickRandom H UA_LIST w;
          (mcc, w2) = pickRandom H MCC_OPTIONS w1;
          (mnc, w3) = pickRandom H MNC_OPTIONS w2;
          (form, w4) = buildFormBody H (cc numberObj) (inPart numberObj) ''sms'' mcc mnc w3;
          req = \<lparr>endpoint = ''https://v.whatsapp.net/v2/register'',
                 http_method = ''POST'',
                 headers = [(''Content-Type'', Some ''application/x-www-form-urlencoded''),
                            (''User-Agent'', ua),
                            (''Accept'', Some ''*/*''),
                            (''Connection'', Some ''keep-alive'')],
                 body = form,
                 agent = (if truthy proxyUrl \<and> proxy_agent_ok H (the proxyUrl)
                          then proxyUrl else None)\<rparr>;
          outcome = fetch H (length (sent w4)) req;
          w5 = w4\<lparr>sent := sent w4 @ [req]\<rparr>
      in case outcome of
           Inr (st, text) \<Rightarrow> (classify st text, w5)
         | Inl err \<Rightarrow>
             if js_lt (int retries) (MAX_RETRIES (env H))
             then let (delay, w6) = backoff H w5
                  in doRegisterCheck H numberObj proxyUrl (retries + 1) w6
             else (network_error err, w5))"
  by pat_completeness auto
termination
  by (relation "measure (\<lambda>(H, numberObj, proxyUrl, retries, w).
          case MAX_RETRIES (env H) of NaN \<Rightarrow> 0 | Num m \<Rightarrow> nat (m - int retries))")
     (auto split: jsnum.splits)

declare doRegisterCheck.simps [simp del]

section \<open>The request handlers\<close>

text \<open>
  The parsed JSON body of a request, with the two fields the handler reads. The model
  covers field values that are strings; a field that is absent is \<open>None\<close>.
\<close>

record req_json =
  number :: "string option"
  phone :: "string option"

text \<open>
  The incoming request: its method, the header \<open>x-forwarded-for\<close>,
  \<open>req.socket.remoteAddress\<close>, and \<open>req.body\<close> when it is an object.
\<close>

record http_request =
  req_method :: string
  x_forwarded_for :: "string option"
  remoteAddress :: "string option"
  req_body :: "req_json option"

record ok_json =
  ok_number :: string
  ok_normalized :: number_obj
  ok_banned :: bool
  ok_statusCode :: "int option"
  ok_raw :: "string option"
  ok_proxy :: string

datatype reply_json =
    ErrorJson string "string option"    \<comment> \<open>\<open>{ error, message }\<close>, the message optional\<close>
  | FailedJson string check_result      \<comment> \<open>\<open>{ error, details }\<close>\<close>
  | OkJson ok_json
  | BannedJson bool                     \<comment> \<open>\<open>{ banned }\<close>\<close>

record http_response =
  code :: nat
  json :: reply_json

fun split_on :: "char \<Rightarrow> string \<Rightarrow> string list" where
  \<comment> \<open>\<open>s.split(c)\<close> for a one-character separator\<close>
  "split_on c [] = [[]]"
| "split_on c (x # xs) =
     (if x = c then [] # split_on c xs
      else case split_on c xs of
             [] \<Rightarrow> [[x]]
           | y # ys \<Rightarrow> (x # y) # ys)"

definition show_jsnum :: "jsnum \<Rightarrow> string" where
  \<comment> \<open>a number inside a template literal\<close>
  "show_jsnum n =
     (case n of NaN \<Rightarrow> ''NaN''
      | Num i \<Rightarrow> if i < 0 then ''-'' @ toString (nat (- i)) else toString (nat i))"

definition caller_ip :: "http_request \<Rightarrow> string" where
  \<comment> \<open>\<open>req.headers["x-forwarded-for"]?.split(",")[0].trim()
        || req.socket.remoteAddress || "unknown"\<close>\<close>
  "caller_ip req =
     or_else (map_option (\<lambda>h. trim (case split_on (CHR '','') h of [] \<Rightarrow> [] | x # _ \<Rightarrow> x))
                (x_forwarded_for req))
       (or_else (remoteAddress req) ''unknown'')"

definition proxy_list :: "process_env \<Rightarrow> string list" where
  \<comment> \<open>\<open>(process.env.PROXIES || "").split("\\n").map(s => s.trim()).filter(Boolean)\<close>\<close>
  "proxy_list E =
     filter (\<lambda>s. s \<noteq> []) (map trim (split_on (CHR 0x0A) (or_else (env_PROXIES E) [])))"

text \<open>
  The handler of \<open>src/unnamed/part_000\<close>, called when the clock reads \<open>ms\<close>. The result
  is \<open>None\<close> where the source leaves the modelled fragment: \<open>req.body\<close> is not an object and
  the source goes on to \<open>req.text()\<close> and \<open>JSON.parse\<close>.
\<close>

definition handler ::
  "host \<Rightarrow> int \<Rightarrow> http_request \<Rightarrow> world \<Rightarrow> http_response option \<times> world" where
  "handler H ms req w =
     (if req_method req \<noteq> ''POST''
      then (Some \<lparr>code = 405, json = ErrorJson ''Method not allowed'' None\<rparr>, w)
      else
        let ip = caller_ip req;
            (allowed, rm) = allowedByRateLimit (env H) ip ms (rateMap w);
            w1 = w\<lparr>rateMap := rm\<rparr>
        in if \<not> allowed
           then (Some \<lparr>code = 429,
                       json = ErrorJson ''rate_limited''
                                (Some (''Too many requests (limit ''
                                       @ show_jsnum (DEFAULT_RATE_LIMIT (env H)) @ ''/min)''))\<rparr>,
                 w1)
           else case req_body req of
                  None \<Rightarrow> (None, w1)
                | Some b \<Rightarrow>
                    let num = trim (or_else (number b) (or_else (phone b) []))
                    in if num = []
                       then (Some \<lparr>code = 400,
                                   json = ErrorJson ''number_required''
                                            (Some (''Send { number: '' @ [CHR 0x22]
                                                   @ ''+6281234...'' @ [CHR 0x22]
                                                   @ '' } in request body''))\<rparr>,
                             w1)
                       else case normalizeNumber num of
                              None \<Rightarrow>
                                (Some \<lparr>code = 400,
                                       json = ErrorJson ''invalid_number''
                                                (Some ''Number must be digits with country code (E.164 recommended).'')\<rparr>,
                                 w1)
                            | Some normalized \<Rightarrow>
                                let proxies = proxy_list (env H);
                                    (proxyToUse, w2) =
                                      (if length proxies > 0 then pickRandom H proxies w1
                                       else (None, w1));
                                    (result, w3) =
                                      doRegisterCheck H
                                        \<lparr>cc = cc normalized, inPart = inPart normalized\<rparr>
                                        proxyToUse 0 w2
                                in if truthy (error result)
                                   then (Some \<lparr>code = 502,
                                               json = FailedJson ''proxy_or_network_failed'' result\<rparr>,
                                         w3)
                                   else (Some \<lparr>code = 200,
                                               json = OkJson
                                                 \<lparr>ok_number = num,
                                                  ok_normalized = normalized,
                                                  ok_banned = (banned result = Some True),
                                                  ok_statusCode = status result,
                                                  ok_raw = (if env_EXPOSE_RAW (env H) = Some ''1''
                                                            then raw result else None),
                                                  ok_proxy = (if truthy proxyToUse
                                                              then ''used'' else ''none'')\<rparr>\<rparr>,
                                         w3))"

text \<open>
  The handler of \<open>src/api/check-ban.js\<close>. The result is \<open>None\<close> where the source throws
  outside its \<open>try\<close>: \<open>req.body\<close> is undefined and cannot be destructured.
\<close>

definition handler_simple ::
  "host \<Rightarrow> http_request \<Rightarrow> world \<Rightarrow> http_response option \<times> world" where
  "handler_simple H req w =
     (if req_method req \<noteq> ''POST''
      then (Some \<lparr>code = 405, json = ErrorJson ''Method not allowed'' None\<rparr>, w)
      else case req_body req of
             None \<Rightarrow> (None, w)
           | Some b \<Rightarrow>
               if \<not> truthy (number b)
               then (Some \<lparr>code = 400, json = ErrorJson ''Phone number required'' None\<rparr>, w)
               else
                 let num = the (number b);
                     req' = \<lparr>endpoint = ''https://v.whatsapp.net/v2/register'',
                             http_method = ''POST'',
                             headers = [(''Content-Type'', Some ''application/x-www-form-urlencoded''),
                                        (''User-Agent'',
                                         Some ''WhatsApp/2.23.8.76 Android/11 Device/Pixel'')],
                             body = [(''cc'', take 2 num), (''in'', drop 2 num),
                                     (''method'', ''sms''), (''mcc'', ''000''), (''mnc'', ''000'')],
                             agent = None\<rparr>;
                     outcome = fetch H (length (sent w)) req';
                     w1 = w\<lparr>sent := sent w @ [req']\<rparr>
                 in case outcome of
                      Inr (st, text) \<Rightarrow>
                        (Some \<lparr>code = 200,
                               json = BannedJson (test (Lit ''banned'') (toLowerCase text))\<rparr>, w1)
                    | Inl err \<Rightarrow>
                        (Some \<lparr>code = 500, json = ErrorJson ''Error checking ban'' None\<rparr>, w1))"

section \<open>The classification rules as the specification words them\<close>
















section \<open>The attempts of a probe, one by one\<close>

text \<open>
  Descriptions of what one run of the body of \<open>doRegisterCheck\<close> does, read off its
  definition and proved equal to it below (lemma \<open>doRegisterCheck_unfold\<close>).
\<close>

definition pick :: "host \<Rightarrow> 'a list \<Rightarrow> nat \<Rightarrow> 'a option" where
  \<comment> \<open>what \<open>pickRandom\<close> returns when \<open>d\<close> draws have been made before it\<close>
  "pick H arr d =
     (if random_floor H d (length arr) < length arr
      then Some (arr ! random_floor H d (length arr)) else None)"

definition proxy_agent :: "host \<Rightarrow> string option \<Rightarrow> string option" where
  \<comment> \<open>\<open>fetchOptions.agent\<close>: the proxy of the agent, if one was set up\<close>
  "proxy_agent H proxyUrl =
     (if truthy proxyUrl \<and> proxy_agent_ok H (the proxyUrl) then proxyUrl else None)"

definition attempt_request :: "host \<Rightarrow> number_obj \<Rightarrow> string option \<Rightarrow> nat \<Rightarrow> request" where
  \<comment> \<open>the request of an attempt that starts when \<open>d\<close> draws have been made\<close>
  "attempt_request H numberObj proxyUrl d =
     \<lparr>endpoint = ''https://v.whatsapp.net/v2/register'',
      http_method = ''POST'',
      headers = [(''Content-Type'', Some ''application/x-www-form-urlencoded''),
                 (''User-Agent'', pick H UA_LIST d),
                 (''Accept'', Some ''*/*''),
                 (''Connection'', Some ''keep-alive'')],
      body = [(''cc'', cc numberObj), (''in'', inPart numberObj), (''method'', ''sms'')]
             @ (if truthy (pick H MCC_OPTIONS (d + 1))
                then [(''mcc'', the (pick H MCC_OPTIONS (d + 1)))] else [])
             @ (if truthy (pick H MNC_OPTIONS (d + 2))
                then [(''mnc'', the (pick H MNC_OPTIONS (d + 2)))] else [])
             @ [(''r'', toString (random_floor H (d + 3) 1000000))],
      agent = proxy_agent H proxyUrl\<rparr>"

definition remaining :: "host \<Rightarrow> nat \<Rightarrow> nat" where
  \<comment> \<open>how many more retries the counter \<open>retries\<close> allows\<close>
  "remaining H retries =
     (case MAX_RETRIES (env H) of NaN \<Rightarrow> 0 | Num m \<Rightarrow> nat (m - int retries))"

definition probe_requests :: "host \<Rightarrow> number_obj \<Rightarrow> string option \<Rightarrow> nat \<Rightarrow> nat \<Rightarrow> request list" where
  \<comment> \<open>the requests of \<open>n\<close> successive attempts, the first starting after \<open>d\<close> draws:
      an attempt makes four draws and the wait before the next one makes a fifth\<close>
  "probe_requests H numberObj proxyUrl d n =
     map (\<lambda>j. attempt_request H numberObj proxyUrl (d + 5 * j)) [0..<n]"

definition chosen_proxy :: "host \<Rightarrow> world \<Rightarrow> string option \<times> world" where
  \<comment> \<open>the handler's choice of \<open>proxyToUse\<close>\<close>
  "chosen_proxy H w1 =
     (if length (proxy_list (env H)) > 0 then pickRandom H (proxy_list (env H)) w1
      else (None, w1))"

section \<open>Sample hosts and requests\<close>

definition default_env :: process_env where
  \<comment> \<open>no variable set\<close>
  "default_env = \<lparr>env_PROXIES = None, env_RATE_LIMIT_PER_MIN = None,
                  env_MAX_RETRIES = None, env_EXPOSE_RAW = None\<rparr>"

definition host_down :: host where
  \<comment> \<open>every call of the transport times out\<close>
  "host_down = \<lparr>env = default_env, random_floor = (\<lambda>i n. i mod n),
                fetch = (\<lambda>k r. Inl ''AbortError: This operation was aborted''),
                proxy_agent_ok = (\<lambda>u. True)\<rparr>"

definition host_up :: host where
  \<comment> \<open>two proxies; every call of the transport is answered with status 403\<close>
  "host_up = \<lparr>env = default_env\<lparr>env_PROXIES := Some (''http://a:8000'' @ [CHR 0x0A]
                                                         @ ''http://b:8000'')\<rparr>,
              random_floor = (\<lambda>i n. i mod n),
              fetch = (\<lambda>k r. Inr (403, ''Unauthorized'')),
              proxy_agent_ok = (\<lambda>u. True)\<rparr>"

definition host_raw :: host where
  \<comment> \<open>as \<open>host_up\<close>, with one proxy and \<open>EXPOSE_RAW=1\<close>\<close>
  "host_raw = host_up\<lparr>env := default_env\<lparr>env_PROXIES := Some ''http://c:3128'',
                                            env_EXPOSE_RAW := Some ''1''\<rparr>\<rparr>"

definition host_echo :: host where
  \<comment> \<open>one proxy and \<open>EXPOSE_RAW=1\<close>; the body of every answer names the proxy the request
      came through\<close>
  "host_echo = \<lparr>env = default_env\<lparr>env_PROXIES := Some ''http://c:3128'',
                                      env_EXPOSE_RAW := Some ''1''\<rparr>,
                random_floor = (\<lambda>i n. i mod n),
                fetch = (\<lambda>k r. Inr (200, ''via '' @ (case agent r of
                                                       None \<Rightarrow> ''no proxy''
                                                     | Some u \<Rightarrow> u))),
                proxy_agent_ok = (\<lambda>u. True)\<rparr>"

definition world0 :: world where
  \<comment> \<open>a process that has just started\<close>
  "world0 = \<lparr>rateMap = Map.empty, draws = 0, sent = []\<rparr>"

definition sample_number :: number_obj where
  "sample_number = \<lparr>cc = ''62'', inPart = ''81234567890''\<rparr>"

definition sample_post :: http_request where
  "sample_post = \<lparr>req_method = ''POST'', x_forwarded_for = Some ''203.0.113.7, 10.0.0.1'',
                   remoteAddress = None,
                   req_body = Some \<lparr>number = Some ''+6281234567890'', phone = None\<rparr>\<rparr>"

definition sample_get :: http_request where
  "sample_get = sample_post\<lparr>req_method := ''GET''\<rparr>"

section \<open>Properties of number normalisation\<close>

lemma length_country_code:
  assumes "plus_s \<noteq> []"
  shows "1 \<le> length (country_code plus_s) \<and> length (country_code plus_s) \<le> 2"
proof -
  have a: "length (strip_zeros (prefix_of plus_s)) \<le> 2"
    using length_dropWhile_le[of "\<lambda>c. c = CHR ''0''" "prefix_of plus_s"]
    by (simp add: strip_zeros_def prefix_of_def split: if_splits)
  have b: "length (take 1 plus_s) = 1" using assms by (cases plus_s) simp_all
  show ?thesis using a b by (auto simp: country_code_def Let_def Suc_le_eq)
qed

lemma set_country_code: "set (country_code plus_s) \<subseteq> set plus_s"
proof -
  have "set (strip_zeros (prefix_of plus_s)) \<subseteq> set (prefix_of plus_s)"
    unfolding strip_zeros_def by (auto dest: set_dropWhileD)
  also have "\<dots> \<subseteq> set plus_s"
    by (auto simp: prefix_of_def dest: in_set_takeD)
  finally show ?thesis
    by (auto simp: country_code_def Let_def dest: in_set_takeD)
qed

lemma country_code_source:
  "(let cc0 = take 2 p;
        cc1 = (if length p < 8 then take 1 p else cc0);
        stripped = dropWhile (\<lambda>c. c = CHR ''0'') cc1
    in (if stripped = [] then take 1 p else stripped)) = country_code p"
  by (auto simp: country_code_def prefix_of_def strip_zeros_def Let_def not_less)

lemma plus_of_source:
  "(let s = trim input in if startsWith s ''+'' then drop 1 s else s) = plus_of input"
  by (simp add: plus_of_def)

lemma normalizeNumber_unfold:
  "normalizeNumber input =
     (if input = [] then None
      else if \<not> digits_6_15 (plus_of input) then None
      else if drop (length (country_code (plus_of input))) (plus_of input) = [] then None
      else Some \<lparr>cc = country_code (plus_of input),
                 inPart = drop (length (country_code (plus_of input))) (plus_of input)\<rparr>)"
  unfolding normalizeNumber_def Let_def
  unfolding plus_of_source[unfolded Let_def] country_code_source[unfolded Let_def]
  by (rule refl)

lemma normalizeNumber_Some:
  assumes "digits_6_15 (plus_of input)"
  shows "normalizeNumber input =
           Some \<lparr>cc = country_code (plus_of input),
                 inPart = drop (length (country_code (plus_of input))) (plus_of input)\<rparr>"
proof -
  let ?p = "plus_of input"
  have len: "6 \<le> length ?p" using assms by (simp add: digits_6_15_def)
  then have ne: "?p \<noteq> []" by auto
  have inp: "input \<noteq> []"
  proof
    assume "input = []"
    then have "?p = []" by (simp add: plus_of_def trim_def startsWith_def)
    with ne show False by simp
  qed
  have "length (country_code ?p) \<le> 2" using length_country_code[OF ne] by simp
  then have dr: "drop (length (country_code ?p)) ?p \<noteq> []" using len by simp
  show ?thesis
    using assms inp dr by (simp only: normalizeNumber_unfold simp_thms if_False)
qed

lemma country_code_no_zero:
  assumes "plus_s \<noteq> []" "hd (prefix_of plus_s) \<noteq> CHR ''0''"
  shows "country_code plus_s = prefix_of plus_s"
proof -
  have ne: "prefix_of plus_s \<noteq> []" using assms(1) by (simp add: prefix_of_def)
  then obtain a as where pa: "prefix_of plus_s = a # as" by (cases "prefix_of plus_s") auto
  with assms(2) have "a \<noteq> CHR ''0''" by simp
  then have "strip_zeros (prefix_of plus_s) = prefix_of plus_s"
    by (simp add: strip_zeros_def pa)
  then show ?thesis using ne by (simp add: country_code_def Let_def)
qed

lemma country_code_all_zero:
  assumes "plus_s \<noteq> []" "strip_zeros (prefix_of plus_s) = []"
  shows "country_code plus_s = ''0'' \<and> CHR ''0'' # drop (Suc 0) plus_s = plus_s"
proof -
  obtain a as where p: "plus_s = a # as" using assms(1) by (cases plus_s) auto
  have "a \<in> set (prefix_of plus_s)" by (simp add: prefix_of_def p)
  moreover have "\<forall>c \<in> set (prefix_of plus_s). c = CHR ''0''"
    using assms(2) by (simp add: strip_zeros_def dropWhile_eq_Nil_conv)
  ultimately have "a = CHR ''0''" by blast
  then show ?thesis using assms(2) by (simp add: country_code_def Let_def p)
qed

lemma plus_ex1: "plus_of ''+6281234567890'' = ''6281234567890''"
  by (simp add: plus_of_def trim_def startsWith_def isWhiteSpace_def)

lemma plus_ex2: "plus_of ''012345'' = ''012345''"
  by (simp add: plus_of_def trim_def startsWith_def isWhiteSpace_def)

text \<open>
  When the prefix is a zero followed by another digit, the zero is removed from \<open>cc\<close> but
  \<open>inPart\<close> is cut after one digit only, so the second digit of the prefix is in both parts.
  When the prefix is two zeros, \<open>cc\<close> is one zero and \<open>inPart\<close> starts with the other.
\<close>

lemma normalizeNumber_zero_then_digit:
  "normalizeNumber ''0123456789'' = Some \<lparr>cc = ''1'', inPart = ''123456789''\<rparr>"
  by (simp add: digits_6_15_def isDigit_def normalizeNumber_def trim_def
        startsWith_def isWhiteSpace_def)

lemma normalizeNumber_two_zeros:
  "normalizeNumber ''0062812345'' = Some \<lparr>cc = ''0'', inPart = ''062812345''\<rparr>"
  by (simp add: digits_6_15_def isDigit_def normalizeNumber_def trim_def
        startsWith_def isWhiteSpace_def)

text \<open>
  Claim C1, as amended. For every input that, trimmed and without one leading \<open>+\<close>, is 6 to
  15 decimal digits, \<open>normalizeNumber\<close> returns a pair whose parts are both non-empty digit
  strings. When the extracted prefix does not start with \<open>0\<close>, \<open>cc\<close> is that prefix and
  \<open>cc + in\<close> is the digit sequence. When the prefix consists of zeros only, \<open>cc\<close> is the
  single digit \<open>0\<close>; if moreover there are fewer than 8 digits (the prefix is one digit),
  \<open>cc + in\<close> is the digit sequence, its zero kept.
\<close>

theorem normalizeNumber_valid:
  assumes "digits_6_15 (plus_of input)"
  shows "\<exists>r. normalizeNumber input = Some r
           \<and> cc r \<noteq> [] \<and> inPart r \<noteq> []
           \<and> list_all isDigit (cc r) \<and> list_all isDigit (inPart r)
           \<and> (hd (prefix_of (plus_of input)) \<noteq> CHR ''0''
                \<longrightarrow> cc r = prefix_of (plus_of input) \<and> cc r @ inPart r = plus_of input)
           \<and> (strip_zeros (prefix_of (plus_of input)) = []
                \<longrightarrow> cc r = ''0''
                  \<and> (length (plus_of input) < 8 \<longrightarrow> cc r @ inPart r = plus_of input))"
proof -
  let ?p = "plus_of input"
  let ?c = "country_code ?p"
  let ?r = "\<lparr>cc = ?c, inPart = drop (length ?c) ?p\<rparr>"
  have len: "6 \<le> length ?p" and dig: "list_all isDigit ?p"
    using assms by (simp_all add: digits_6_15_def)
  have ne: "?p \<noteq> []" using len by auto
  have lc: "1 \<le> length ?c" "length ?c \<le> 2" using length_country_code[OF ne] by simp_all
  have r: "normalizeNumber input = Some ?r" by (rule normalizeNumber_Some[OF assms])
  have c1: "cc ?r \<noteq> []" using lc(1) by auto
  have c2: "inPart ?r \<noteq> []" using lc(2) len by simp
  have c3: "list_all isDigit (cc ?r)"
    using dig set_country_code[of ?p] by (auto simp: list_all_iff)
  have c4: "list_all isDigit (inPart ?r)"
    using dig by (auto simp: list_all_iff dest: in_set_dropD)
  have c5: "cc ?r = prefix_of ?p \<and> cc ?r @ inPart ?r = ?p"
    if "hd (prefix_of ?p) \<noteq> CHR ''0''"
  proof -
    have "?c = prefix_of ?p" by (rule country_code_no_zero[OF ne that])
    moreover have "prefix_of ?p @ drop (length (prefix_of ?p)) ?p = ?p"
      using len by (simp add: prefix_of_def min_def)
    ultimately show ?thesis by simp
  qed
  have c6: "cc ?r = ''0'' \<and> (length ?p < 8 \<longrightarrow> cc ?r @ inPart ?r = ?p)"
    if "strip_zeros (prefix_of ?p) = []"
    using country_code_all_zero[OF ne that] by simp
  show ?thesis using r c1 c2 c3 c4 c5 c6 by blast
qed

theorem normalizeNumber_valid_witness:
  "digits_6_15 (plus_of ''+6281234567890'')
   \<and> hd (prefix_of (plus_of ''+6281234567890'')) \<noteq> CHR ''0''
   \<and> (\<exists>r. normalizeNumber ''+6281234567890'' = Some r
          \<and> cc r = ''62'' \<and> cc r @ inPart r = ''6281234567890'')
   \<and> digits_6_15 (plus_of ''012345'')
   \<and> strip_zeros (prefix_of (plus_of ''012345'')) = []
   \<and> length (plus_of ''012345'') < 8
   \<and> (\<exists>r. normalizeNumber ''012345'' = Some r
          \<and> cc r = ''0'' \<and> cc r @ inPart r = ''012345'')"
proof -
  have a: "digits_6_15 (plus_of ''+6281234567890'')"
    by (simp add: plus_ex1 digits_6_15_def isDigit_def)
  have b: "hd (prefix_of (plus_of ''+6281234567890'')) \<noteq> CHR ''0''"
    by (simp add: plus_ex1 prefix_of_def)
  have c: "prefix_of (plus_of ''+6281234567890'') = ''62''"
    by (simp add: plus_ex1 prefix_of_def)
  have d: "digits_6_15 (plus_of ''012345'')"
    by (simp add: plus_ex2 digits_6_15_def isDigit_def)
  have e: "strip_zeros (prefix_of (plus_of ''012345'')) = []"
    by (simp add: plus_ex2 prefix_of_def strip_zeros_def)
  have l: "length (plus_of ''012345'') < 8"
    by (simp add: plus_ex2)
  from normalizeNumber_valid[OF a] b c
  have f: "\<exists>r. normalizeNumber ''+6281234567890'' = Some r
          \<and> cc r = ''62'' \<and> cc r @ inPart r = ''6281234567890''"
    by (auto simp: plus_ex1)
  from normalizeNumber_valid[OF d] e l
  have g: "\<exists>r. normalizeNumber ''012345'' = Some r
          \<and> cc r = ''0'' \<and> cc r @ inPart r = ''012345''"
    by (auto simp: plus_ex2)
  show ?thesis using a b d e l f g by blast
qed

text \<open>
  Claim C1 as stated fails for \<open>012345\<close>: the prefix \<open>0\<close> strips to nothing, \<open>cc\<close> falls
  back to \<open>0\<close>, and \<open>cc + in\<close> is the whole input, not the input without the zero of its
  prefix.
\<close>

theorem normalizeNumber_zero_prefix_kept:
  "digits_6_15 (plus_of ''012345'')
   \<and> normalizeNumber ''012345'' = Some \<lparr>cc = ''0'', inPart = ''12345''\<rparr>
   \<and> ''0'' @ ''12345''
       \<noteq> strip_zeros (prefix_of (plus_of ''012345''))
           @ drop (length (prefix_of (plus_of ''012345''))) (plus_of ''012345'')"
  by (simp add: plus_ex2 digits_6_15_def isDigit_def normalizeNumber_def trim_def
        startsWith_def isWhiteSpace_def prefix_of_def strip_zeros_def)

text \<open>
  Claim C7. For every valid input the country code is the first two digits when there are
  at least 8 digits and the first digit otherwise, without its leading zeros, or the first
  digit when nothing is left; and \<open>+6281234567890\<close> gives \<open>62\<close> and \<open>81234567890\<close>.
\<close>

theorem normalizeNumber_country_code:
  "(digits_6_15 (plus_of input) \<longrightarrow>
      (\<exists>r. normalizeNumber input = Some r
         \<and> cc r = (let pre = (if 8 \<le> length (plus_of input) then take 2 (plus_of input)
                              else take 1 (plus_of input));
                       s = dropWhile (\<lambda>c. c = CHR ''0'') pre
                   in if s = [] then take 1 (plus_of input) else s)))
   \<and> normalizeNumber ''+6281234567890'' = Some \<lparr>cc = ''62'', inPart = ''81234567890''\<rparr>"
proof -
  have "normalizeNumber ''+6281234567890'' = Some \<lparr>cc = ''62'', inPart = ''81234567890''\<rparr>"
    by (simp add: digits_6_15_def isDigit_def normalizeNumber_def trim_def
        startsWith_def isWhiteSpace_def)
  moreover have "\<exists>r. normalizeNumber input = Some r
         \<and> cc r = (let pre = (if 8 \<le> length (plus_of input) then take 2 (plus_of input)
                              else take 1 (plus_of input));
                       s = dropWhile (\<lambda>c. c = CHR ''0'') pre
                   in if s = [] then take 1 (plus_of input) else s)"
    if "digits_6_15 (plus_of input)"
    using normalizeNumber_Some[OF that]
    by (simp add: country_code_def prefix_of_def strip_zeros_def Let_def)
  ultimately show ?thesis by blast
qed

theorem normalizeNumber_country_code_witness:
  "digits_6_15 (plus_of ''+628123'')
   \<and> (\<exists>r. normalizeNumber ''+628123'' = Some r \<and> cc r = ''6'')"
proof -
  have p: "plus_of ''+628123'' = ''628123''"
    by (simp add: plus_of_def trim_def startsWith_def isWhiteSpace_def)
  have a: "digits_6_15 (plus_of ''+628123'')"
    by (simp add: p digits_6_15_def isDigit_def)
  show ?thesis
    using a normalizeNumber_country_code[of "''+628123''"] by (auto simp: p)
qed

section \<open>Properties of the classification\<close>





























section \<open>Properties of the rate limiter\<close>

lemma allowed_fresh:
  assumes "m ip = None \<or> (\<exists>rec. m ip = Some rec \<and> nowUnix t - windowStart rec \<ge> 60)"
  shows "allowedByRateLimit E ip t m
           = (True, m(ip \<mapsto> \<lparr>count = 1, windowStart = nowUnix t\<rparr>))"
  using assms by (auto simp: allowedByRateLimit_def Let_def)

lemma allowed_in_window:
  assumes "m ip = Some rec" "nowUnix t - windowStart rec < 60"
  shows "allowedByRateLimit E ip t m
           = (if js_lt (count rec) (DEFAULT_RATE_LIMIT E)
              then (True, m(ip \<mapsto> rec\<lparr>count := count rec + 1\<rparr>))
              else (False, m))"
  using assms by (simp add: allowedByRateLimit_def Let_def)

lemma allowed_other_key:
  "ip' \<noteq> ip \<Longrightarrow> snd (allowedByRateLimit E ip' t m) ip = m ip"
  by (simp add: allowedByRateLimit_def Let_def split: option.splits)

lemma calls_append:
  "calls E ip (xs @ ys) m =
     (fst (calls E ip xs m) @ fst (calls E ip ys (snd (calls E ip xs m))),
      snd (calls E ip ys (snd (calls E ip xs m))))"
  by (induction xs arbitrary: m) (simp_all add: case_prod_beta Let_def)

lemma calls_in_window:
  assumes "m ip = Some \<lparr>count = c, windowStart = T\<rparr>"
    and "\<forall>t \<in> set ts. nowUnix t - T < 60"
    and "DEFAULT_RATE_LIMIT E = Num L"
    and "c + int (length ts) \<le> L"
  shows "calls E ip ts m
           = (replicate (length ts) True,
              m(ip \<mapsto> \<lparr>count = c + int (length ts), windowStart = T\<rparr>))"
  using assms
proof (induction ts arbitrary: m c)
  case Nil
  then show ?case by (simp add: map_upd_triv)
next
  case (Cons t ts)
  let ?m1 = "m(ip \<mapsto> \<lparr>count = c + 1, windowStart = T\<rparr>)"
  have lt: "js_lt c (DEFAULT_RATE_LIMIT E)" using Cons.prems(3,4) by simp
  have step: "allowedByRateLimit E ip t m = (True, ?m1)"
    using allowed_in_window[of m ip "\<lparr>count = c, windowStart = T\<rparr>" t E]
      Cons.prems(1,2) lt by simp
  have "calls E ip ts ?m1
           = (replicate (length ts) True,
              ?m1(ip \<mapsto> \<lparr>count = (c + 1) + int (length ts), windowStart = T\<rparr>))"
    by (rule Cons.IH) (use Cons.prems in auto)
  then have rest: "calls E ip ts ?m1
           = (replicate (length ts) True,
              m(ip \<mapsto> \<lparr>count = c + int (length (t # ts)), windowStart = T\<rparr>))"
    by (simp add: add_ac)
  show ?case by (simp add: step rest; simp add: fun_upd_def)
qed

lemma default_limit: "DEFAULT_RATE_LIMIT default_env = Num 30"
  by code_simp

text \<open>
  Claim C3. With the limit 30 and the window of 60 seconds: a call for a key that has no
  record, or whose record is at least 60 seconds old, sets the record to count 1 and the
  current time and is allowed; that call and the next 29 inside its window are allowed and
  the 31st is refused; once the window has elapsed a call is allowed again and resets the
  record.
\<close>

theorem rate_limit_window:
  assumes "DEFAULT_RATE_LIMIT E = Num 30"
    and "m ip = None \<or> (\<exists>rec. m ip = Some rec \<and> nowUnix t0 - windowStart rec \<ge> 60)"
    and "length ts = 30"
    and "\<forall>t \<in> set ts. nowUnix t - nowUnix t0 < 60"
    and "nowUnix t' - nowUnix t0 \<ge> 60"
  shows "allowedByRateLimit E ip t0 m
             = (True, m(ip \<mapsto> \<lparr>count = 1, windowStart = nowUnix t0\<rparr>))
         \<and> fst (calls E ip (t0 # ts) m) = replicate 30 True @ [False]
         \<and> allowedByRateLimit E ip t' (snd (calls E ip (t0 # ts) m))
             = (True, (snd (calls E ip (t0 # ts) m))
                        (ip \<mapsto> \<lparr>count = 1, windowStart = nowUnix t'\<rparr>))"
proof -
  let ?T = "nowUnix t0"
  let ?m1 = "m(ip \<mapsto> \<lparr>count = 1, windowStart = ?T\<rparr>)"
  let ?m30 = "m(ip \<mapsto> \<lparr>count = 30, windowStart = ?T\<rparr>)"
  have h_first: "allowedByRateLimit E ip t0 m = (True, ?m1)"
    using allowed_fresh[of m ip t0 E] assms(2) by simp
  obtain us u where ts: "ts = us @ [u]" and lus: "length us = 29"
    using assms(3) by (cases ts rule: rev_cases) auto
  have h_mid: "calls E ip us ?m1 = (replicate 29 True, ?m30)"
    using calls_in_window[of ?m1 ip 1 ?T us E 30] assms(1,4) lus ts by simp
  have uwin: "nowUnix u - ?T < 60" using assms(4) ts by simp
  have h_last: "allowedByRateLimit E ip u ?m30 = (False, ?m30)"
    using allowed_in_window[of ?m30 ip "\<lparr>count = 30, windowStart = ?T\<rparr>" u E] uwin assms(1)
    by simp
  have h_tl: "calls E ip ts ?m1 = (replicate 29 True @ [False], ?m30)"
    by (simp add: ts calls_append h_mid h_last)
  have h_all: "calls E ip (t0 # ts) m = (True # replicate 29 True @ [False], ?m30)"
    by (simp add: h_first h_tl)
  have r30: "True # replicate 29 True = replicate 30 True"
    by (simp add: numeral_eq_Suc)
  have h_again: "allowedByRateLimit E ip t' ?m30
                 = (True, ?m30(ip \<mapsto> \<lparr>count = 1, windowStart = nowUnix t'\<rparr>))"
    using allowed_fresh[of ?m30 ip t' E] assms(5) by simp
  show ?thesis unfolding h_all using h_first h_again r30 by simp
qed

theorem rate_limit_window_witness:
  "fst (calls default_env ''10.0.0.1'' (1000 # replicate 30 59999) Map.empty)
     = replicate 30 True @ [False]
   \<and> fst (allowedByRateLimit default_env ''10.0.0.1'' 61000
        (snd (calls default_env ''10.0.0.1'' (1000 # replicate 30 59999) Map.empty)))"
proof -
  have a: "(Map.empty :: rate_map) ''10.0.0.1'' = None
        \<or> (\<exists>rec. (Map.empty :: rate_map) ''10.0.0.1'' = Some rec
               \<and> nowUnix 1000 - windowStart rec \<ge> 60)" by simp
  have b: "length (replicate 30 (59999::int)) = 30" by simp
  have c: "\<forall>t \<in> set (replicate 30 (59999::int)). nowUnix t - nowUnix 1000 < 60"
    by (simp add: nowUnix_def)
  have d: "nowUnix 61000 - nowUnix 1000 \<ge> 60" by (simp add: nowUnix_def)
  let ?run = "calls default_env ''10.0.0.1'' (1000 # replicate 30 59999) Map.empty"
  note inst = rate_limit_window[of default_env Map.empty "''10.0.0.1''" 1000
      "replicate 30 59999" 61000, OF default_limit a b c d]
  from inst have r: "fst ?run = replicate 30 True @ [False]" by blast
  from inst have "allowedByRateLimit default_env ''10.0.0.1'' 61000 (snd ?run)
                   = (True, (snd ?run)(''10.0.0.1'' \<mapsto>
                        \<lparr>count = 1, windowStart = nowUnix 61000\<rparr>))"
    by blast
  then have "fst (allowedByRateLimit default_env ''10.0.0.1'' 61000 (snd ?run))"
    by (simp only: fst_conv)
  with r show ?thesis by blast
qed

section \<open>Properties of the probe\<close>

lemma pickRandom_pick:
  "pickRandom H arr w = (pick H arr (draws w), w\<lparr>draws := draws w + 1\<rparr>)"
  by (simp add: pickRandom_def pick_def Let_def)

lemma js_lt_remaining: "js_lt (int retries) (MAX_RETRIES (env H)) \<longleftrightarrow> 0 < remaining H retries"
  by (cases "MAX_RETRIES (env H)") (simp_all add: remaining_def)

lemma remaining_Suc:
  "0 < remaining H retries \<Longrightarrow> remaining H (retries + 1) = remaining H retries - 1"
  by (cases "MAX_RETRIES (env H)") (simp_all add: remaining_def nat_diff_distrib')

lemma small_sums:
  "d + 2 = Suc (Suc d)" "d + 3 = Suc (Suc (Suc d))"
  "d + 4 = Suc (Suc (Suc (Suc d)))" "d + 5 = Suc (Suc (Suc (Suc (Suc d))))"
  by simp_all

lemma doRegisterCheck_unfold:
  "doRegisterCheck H numberObj proxyUrl retries w =
     (let req = attempt_request H numberObj proxyUrl (draws w);
          w5 = w\<lparr>draws := draws w + 4, sent := sent w @ [req]\<rparr>
      in case fetch H (length (sent w)) req of
           Inr (st, text) \<Rightarrow> (classify st text, w5)
         | Inl err \<Rightarrow>
             if 0 < remaining H retries
             then doRegisterCheck H numberObj proxyUrl (retries + 1) (w5\<lparr>draws := draws w + 5\<rparr>)
             else (network_error err, w5))"
  apply (subst doRegisterCheck.simps)
  apply (simp only: pickRandom_pick buildFormBody_def backoff_def Let_def prod.case)
  apply (simp add: attempt_request_def proxy_agent_def js_lt_remaining small_sums
      split del: if_split cong: sum.case_cong if_cong)
  done


lemma probe_requests_front:
  "probe_requests H n p d (Suc m) = attempt_request H n p d # probe_requests H n p (d + 5) m"
proof -
  have "[0..<Suc m] = 0 # [Suc 0..<Suc m]"
    by (rule upt_conv_Cons) simp
  then have "[0..<Suc m] = 0 # map Suc [0..<m]"
    by (simp only: map_Suc_upt)
  then show ?thesis
    by (simp add: probe_requests_def comp_def add_ac del: upt_Suc)
qed

lemma doRegisterCheck_trace:
  assumes "doRegisterCheck H n p retries w = (res, w')"
  shows "\<exists>k \<le> remaining H retries.
           sent w' = sent w @ probe_requests H n p (draws w) (Suc k)
         \<and> draws w' = draws w + 5 * k + 4
         \<and> rateMap w' = rateMap w
         \<and> (\<forall>j<k. isl (fetch H (length (sent w) + j) (attempt_request H n p (draws w + 5 * j))))
         \<and> (case fetch H (length (sent w) + k) (attempt_request H n p (draws w + 5 * k)) of
               Inr (st, text) \<Rightarrow> res = classify st text
             | Inl e \<Rightarrow> k = remaining H retries \<and> res = network_error e)"
  using assms
proof (induction "remaining H retries" arbitrary: retries w)
  case 0
  let ?req = "attempt_request H n p (draws w)"
  let ?w5 = "w\<lparr>draws := draws w + 4, sent := sent w @ [?req]\<rparr>"
  show ?case
  proof (cases "fetch H (length (sent w)) ?req")
    case (Inl e)
    then have "res = network_error e" "w' = ?w5"
      using "0.prems" "0.hyps" by (simp_all add: doRegisterCheck_unfold[of H n p retries w] Let_def)
    then show ?thesis
      using Inl "0.hyps" by (intro exI[of _ 0]) (simp add: probe_requests_def)
  next
    case (Inr r)
    obtain st tx where r: "r = (st, tx)" by (cases r)
    have "res = classify st tx" "w' = ?w5"
      using "0.prems" Inr r by (simp_all add: doRegisterCheck_unfold[of H n p retries w] Let_def)
    then show ?thesis
      using Inr r by (intro exI[of _ 0]) (simp add: probe_requests_def)
  qed
next
  case (Suc m)
  let ?req = "attempt_request H n p (draws w)"
  let ?w5 = "w\<lparr>draws := draws w + 4, sent := sent w @ [?req]\<rparr>"
  let ?w6 = "?w5\<lparr>draws := draws w + 5\<rparr>"
  have pos: "0 < remaining H retries" using Suc.hyps(2) by simp
  show ?case
  proof (cases "fetch H (length (sent w)) ?req")
    case (Inr r)
    obtain st tx where r: "r = (st, tx)" by (cases r)
    have "res = classify st tx" "w' = ?w5"
      using Suc.prems Inr r by (simp_all add: doRegisterCheck_unfold[of H n p retries w] Let_def)
    then show ?thesis
      using Inr r by (intro exI[of _ 0]) (simp add: probe_requests_def)
  next
    case (Inl e)
    have rec: "doRegisterCheck H n p (retries + 1) ?w6 = (res, w')"
      using Suc.prems Inl pos by (simp add: doRegisterCheck_unfold[of H n p retries w] Let_def)
    have m: "m = remaining H (retries + 1)"
      using remaining_Suc[OF pos] Suc.hyps(2) by simp
    from Suc.hyps(1)[OF m rec] obtain k where k: "k \<le> remaining H (retries + 1)"
      and s: "sent w' = sent ?w6 @ probe_requests H n p (draws ?w6) (Suc k)"
      and d: "draws w' = draws ?w6 + 5 * k + 4"
      and rm: "rateMap w' = rateMap ?w6"
      and fl: "\<forall>j<k. isl (fetch H (length (sent ?w6) + j)
                            (attempt_request H n p (draws ?w6 + 5 * j)))"
      and fin: "case fetch H (length (sent ?w6) + k)
                       (attempt_request H n p (draws ?w6 + 5 * k)) of
                  Inr (st, text) \<Rightarrow> res = classify st text
                | Inl e \<Rightarrow> k = remaining H (retries + 1) \<and> res = network_error e"
      by blast
    have k': "Suc k \<le> remaining H retries" using k m Suc.hyps(2) by simp
    have s': "sent w' = sent w @ probe_requests H n p (draws w) (Suc (Suc k))"
      using s by (simp add: probe_requests_front[of H n p "draws w"])
    have d': "draws w' = draws w + 5 * Suc k + 4" using d by simp
    have rm': "rateMap w' = rateMap w" using rm by simp
    have fl': "\<forall>j<Suc k. isl (fetch H (length (sent w) + j)
                            (attempt_request H n p (draws w + 5 * j)))"
    proof (intro allI impI)
      fix j assume "j < Suc k"
      show "isl (fetch H (length (sent w) + j) (attempt_request H n p (draws w + 5 * j)))"
      proof (cases j)
        case 0
        then show ?thesis using Inl by simp
      next
        case (Suc i)
        then have "i < k" using \<open>j < Suc k\<close> by simp
        with fl have "isl (fetch H (length (sent ?w6) + i)
                            (attempt_request H n p (draws ?w6 + 5 * i)))" by blast
        then show ?thesis using Suc by (simp add: add_ac)
      qed
    qed
    have fin': "case fetch H (length (sent w) + Suc k)
                       (attempt_request H n p (draws w + 5 * Suc k)) of
                  Inr (st, text) \<Rightarrow> res = classify st text
                | Inl e \<Rightarrow> Suc k = remaining H retries \<and> res = network_error e"
    proof -
      have eq: "length (sent ?w6) + k = length (sent w) + Suc k"
          "draws ?w6 + 5 * k = draws w + 5 * Suc k" by simp_all
      have "k = remaining H (retries + 1) \<longleftrightarrow> Suc k = remaining H retries"
        using m Suc.hyps(2) by auto
      then show ?thesis using fin unfolding eq by (auto split: sum.splits prod.splits)
    qed
    show ?thesis using k' s' d' rm' fl' fin' by blast
  qed
qed

lemma classify_fields:
  "error (classify st tx) = None \<and> raw (classify st tx) = Some tx
   \<and> status (classify st tx) = Some st"
  by (simp add: classify_def verdict_def Let_def)

lemma network_error_fields:
  "error (network_error e) = Some ''network_error'' \<and> truthy (error (network_error e))"
  by (simp add: network_error_def truthy_def)

lemma doRegisterCheck_first_ok:
  assumes "fetch H (length (sent w)) (attempt_request H n p (draws w)) = Inr (st, tx)"
  shows "doRegisterCheck H n p retries w
           = (classify st tx,
              w\<lparr>draws := draws w + 4, sent := sent w @ [attempt_request H n p (draws w)]\<rparr>)"
  using assms by (simp add: doRegisterCheck_unfold[of H n p retries w] Let_def)

lemma probe_requests_nth:
  "j < m \<Longrightarrow> probe_requests H n p d m ! j = attempt_request H n p (d + 5 * j)"
  by (simp add: probe_requests_def)

lemma length_probe_requests: "length (probe_requests H n p d m) = m"
  by (simp add: probe_requests_def)

lemma remaining_0: "MAX_RETRIES (env H) = Num m \<Longrightarrow> remaining H 0 = nat m"
  by (simp add: remaining_def)

lemma doRegisterCheck_all_fail:
  assumes "\<forall>k r. isl (fetch H k r)"
  shows "\<exists>e w'. doRegisterCheck H n p retries w = (network_error e, w')
              \<and> length (sent w') = length (sent w) + remaining H retries + 1"
proof -
  obtain res w' where r: "doRegisterCheck H n p retries w = (res, w')"
    by (cases "doRegisterCheck H n p retries w")
  from doRegisterCheck_trace[OF r] obtain k where k: "k \<le> remaining H retries"
    and s: "sent w' = sent w @ probe_requests H n p (draws w) (Suc k)"
    and fin: "case fetch H (length (sent w) + k) (attempt_request H n p (draws w + 5 * k)) of
               Inr (st, tx) \<Rightarrow> res = classify st tx
             | Inl e \<Rightarrow> k = remaining H retries \<and> res = network_error e"
    by blast
  from assms obtain e where
    "fetch H (length (sent w) + k) (attempt_request H n p (draws w + 5 * k)) = Inl e"
    by (metis isl_def)
  with fin have "k = remaining H retries" "res = network_error e" by simp_all
  then show ?thesis using r s by (auto simp: length_probe_requests)
qed

lemma options_nonempty:
  "\<forall>x \<in> set UA_LIST. x \<noteq> []" "\<forall>x \<in> set MCC_OPTIONS. x \<noteq> []"
  "\<forall>x \<in> set MNC_OPTIONS. x \<noteq> []"
  by (simp_all add: UA_LIST_def MCC_OPTIONS_def MNC_OPTIONS_def)

lemma pick_cases:
  "pick H arr d = None \<or> (\<exists>x \<in> set arr. pick H arr d = Some x)"
  by (auto simp: pick_def)

lemma pick_truthy:
  assumes "\<forall>x \<in> set arr. x \<noteq> []"
  shows "truthy (pick H arr d) \<longleftrightarrow> pick H arr d \<noteq> None"
  using assms pick_cases[of H arr d] by (auto simp: truthy_def)

lemma attempt_request_agent: "agent (attempt_request H n p d) = proxy_agent H p"
  by (simp add: attempt_request_def)

lemma attempt_request_ua:
  "map_of (headers (attempt_request H n p d)) ''User-Agent'' = Some (pick H UA_LIST d)"
  by (simp add: attempt_request_def)

lemma attempt_request_mcc:
  "map_of (body (attempt_request H n p d)) ''mcc'' = pick H MCC_OPTIONS (d + 1)"
  using pick_truthy[OF options_nonempty(2), of H "d + 1"]
  by (auto simp: attempt_request_def)

lemma attempt_request_mnc:
  "map_of (body (attempt_request H n p d)) ''mnc'' = pick H MNC_OPTIONS (d + 2)"
  using pick_truthy[OF options_nonempty(3), of H "d + 2"]
  by (auto simp: attempt_request_def)

lemma doRegisterCheck_ok_result:
  assumes "doRegisterCheck H n p retries w = (res, w')" and "\<not> truthy (error res)"
  shows "\<exists>st tx. res = classify st tx \<and> sent w' \<noteq> []
            \<and> fetch H (length (sent w') - 1) (last (sent w')) = Inr (st, tx)"
proof -
  from doRegisterCheck_trace[OF assms(1)] obtain k where
    s: "sent w' = sent w @ probe_requests H n p (draws w) (Suc k)"
    and fin: "case fetch H (length (sent w) + k) (attempt_request H n p (draws w + 5 * k)) of
               Inr (st, tx) \<Rightarrow> res = classify st tx
             | Inl e \<Rightarrow> k = remaining H retries \<and> res = network_error e"
    by blast
  have lst: "last (sent w') = attempt_request H n p (draws w + 5 * k)"
    using s by (simp add: probe_requests_def)
  have len: "length (sent w') - 1 = length (sent w) + k"
    using s by (simp add: length_probe_requests)
  have ne: "sent w' \<noteq> []" using s by (simp add: probe_requests_def)
  show ?thesis
  proof (cases "fetch H (length (sent w) + k) (attempt_request H n p (draws w + 5 * k))")
    case (Inl e)
    then have "res = network_error e" using fin by simp
    then have "truthy (error res)" by (simp add: network_error_def truthy_def)
    with assms(2) show ?thesis by simp
  next
    case (Inr x)
    obtain st tx where x: "x = (st, tx)" by (cases x)
    then have "res = classify st tx" using fin Inr by simp
    then show ?thesis using Inr x lst len ne by auto
  qed
qed

section \<open>Properties of the handler\<close>

lemma handler_probe:
  assumes "req_method req = ''POST''"
    and "fst (allowedByRateLimit (env H) (caller_ip req) ms (rateMap w))"
    and "req_body req = Some b"
    and "normalizeNumber (trim (or_else (number b) (or_else (phone b) []))) = Some normalized"
  shows "handler H ms req w =
     (let w1 = w\<lparr>rateMap := snd (allowedByRateLimit (env H) (caller_ip req) ms (rateMap w))\<rparr>;
          pw = chosen_proxy H w1;
          rw = doRegisterCheck H normalized (fst pw) 0 (snd pw)
      in if truthy (error (fst rw))
         then (Some \<lparr>code = 502, json = FailedJson ''proxy_or_network_failed'' (fst rw)\<rparr>, snd rw)
         else (Some \<lparr>code = 200,
                     json = OkJson
                       \<lparr>ok_number = trim (or_else (number b) (or_else (phone b) [])),
                        ok_normalized = normalized,
                        ok_banned = (banned (fst rw) = Some True),
                        ok_statusCode = status (fst rw),
                        ok_raw = (if env_EXPOSE_RAW (env H) = Some ''1''
                                  then raw (fst rw) else None),
                        ok_proxy = (if truthy (fst pw) then ''used'' else ''none'')\<rparr>\<rparr>,
               snd rw))"
proof -
  have ne: "trim (or_else (number b) (or_else (phone b) [])) \<noteq> []"
    using assms(4) by (auto simp: normalizeNumber_def)
  have eta: "\<lparr>cc = cc normalized, inPart = inPart normalized\<rparr> = normalized"
    by (cases normalized) simp
  show ?thesis
    using assms ne
    by (simp add: handler_def Let_def chosen_proxy_def case_prod_beta eta
        split del: if_split cong: if_cong)
qed


lemma handler_ok_inv:
  assumes "handler H ms req w = (Some resp, w')"
    and "code resp = 200 \<or> (\<exists>ok. json resp = OkJson ok)"
  shows "\<exists>b normalized.
           req_method req = ''POST''
         \<and> fst (allowedByRateLimit (env H) (caller_ip req) ms (rateMap w))
         \<and> req_body req = Some b
         \<and> normalizeNumber (trim (or_else (number b) (or_else (phone b) []))) = Some normalized"
proof -
  have m: "req_method req = ''POST''"
  proof (rule ccontr)
    assume "req_method req \<noteq> ''POST''"
    then have "handler H ms req w
                 = (Some \<lparr>code = 405, json = ErrorJson ''Method not allowed'' None\<rparr>, w)"
      by (simp add: handler_def)
    then show False using assms by auto
  qed
  have a: "fst (allowedByRateLimit (env H) (caller_ip req) ms (rateMap w))"
  proof (rule ccontr)
    assume "\<not> ?thesis"
    then show False
      using assms m by (auto simp: handler_def Let_def case_prod_beta)
  qed
  obtain b where b: "req_body req = Some b"
    using assms m a by (cases "req_body req") (auto simp: handler_def Let_def case_prod_beta)
  let ?num = "trim (or_else (number b) (or_else (phone b) []))"
  have ne: "?num \<noteq> []"
  proof
    assume "?num = []"
    then show False
      using assms m a b by (auto simp: handler_def Let_def case_prod_beta)
  qed
  obtain normalized where "normalizeNumber ?num = Some normalized"
    using assms m a b ne
    by (cases "normalizeNumber ?num") (auto simp: handler_def Let_def case_prod_beta)
  then show ?thesis using m a b by blast
qed

lemma chosen_proxy_frame:
  "sent (snd (chosen_proxy H w1)) = sent w1 \<and> rateMap (snd (chosen_proxy H w1)) = rateMap w1"
  by (simp add: chosen_proxy_def pickRandom_pick)

lemma host_down_fails: "\<forall>k r. isl (fetch host_down k r)"
  by (simp add: host_down_def)

lemma host_down_retries: "MAX_RETRIES (env host_down) = Num 2"
  by code_simp

lemma handler_ok_result:
  assumes "handler H ms req w = (Some resp, w')"
    and "code resp = 200 \<or> (\<exists>ok. json resp = OkJson ok)"
  shows "\<exists>b normalized w1 res.
           req_body req = Some b
         \<and> normalizeNumber (trim (or_else (number b) (or_else (phone b) []))) = Some normalized
         \<and> rateMap w1 = snd (allowedByRateLimit (env H) (caller_ip req) ms (rateMap w))
         \<and> doRegisterCheck H normalized (fst (chosen_proxy H w1)) 0 (snd (chosen_proxy H w1))
              = (res, w')
         \<and> \<not> truthy (error res)
         \<and> resp = \<lparr>code = 200,
                    json = OkJson
                      \<lparr>ok_number = trim (or_else (number b) (or_else (phone b) [])),
                       ok_normalized = normalized,
                       ok_banned = (banned res = Some True),
                       ok_statusCode = status res,
                       ok_raw = (if env_EXPOSE_RAW (env H) = Some ''1'' then raw res else None),
                       ok_proxy = (if truthy (fst (chosen_proxy H w1))
                                   then ''used'' else ''none'')\<rparr>\<rparr>"
proof -
  from handler_ok_inv[OF assms] obtain b normalized where
    h: "req_method req = ''POST''"
       "fst (allowedByRateLimit (env H) (caller_ip req) ms (rateMap w))"
       "req_body req = Some b"
       "normalizeNumber (trim (or_else (number b) (or_else (phone b) []))) = Some normalized"
    by blast
  let ?w1 = "w\<lparr>rateMap := snd (allowedByRateLimit (env H) (caller_ip req) ms (rateMap w))\<rparr>"
  let ?pw = "chosen_proxy H ?w1"
  obtain res w3 where r: "doRegisterCheck H normalized (fst ?pw) 0 (snd ?pw) = (res, w3)"
    by (cases "doRegisterCheck H normalized (fst ?pw) 0 (snd ?pw)")
  have nt: "\<not> truthy (error res)"
  proof
    assume "truthy (error res)"
    then have "handler H ms req w
                 = (Some \<lparr>code = 502, json = FailedJson ''proxy_or_network_failed'' res\<rparr>, w3)"
      by (simp add: handler_probe[OF h] Let_def r)
    with assms show False by auto
  qed
  have "handler H ms req w
          = (Some \<lparr>code = 200,
                    json = OkJson
                      \<lparr>ok_number = trim (or_else (number b) (or_else (phone b) [])),
                       ok_normalized = normalized,
                       ok_banned = (banned res = Some True),
                       ok_statusCode = status res,
                       ok_raw = (if env_EXPOSE_RAW (env H) = Some ''1'' then raw res else None),
                       ok_proxy = (if truthy (fst ?pw) then ''used'' else ''none'')\<rparr>\<rparr>, w3)"
    using nt by (simp add: handler_probe[OF h] Let_def r)
  with assms(1) have w3: "w' = w3" and
    resp: "resp = \<lparr>code = 200,
                    json = OkJson
                      \<lparr>ok_number = trim (or_else (number b) (or_else (phone b) [])),
                       ok_normalized = normalized,
                       ok_banned = (banned res = Some True),
                       ok_statusCode = status res,
                       ok_raw = (if env_EXPOSE_RAW (env H) = Some ''1'' then raw res else None),
                       ok_proxy = (if truthy (fst ?pw) then ''used'' else ''none'')\<rparr>\<rparr>"
    by simp_all
  have "req_body req = Some b
         \<and> normalizeNumber (trim (or_else (number b) (or_else (phone b) []))) = Some normalized
         \<and> rateMap ?w1 = snd (allowedByRateLimit (env H) (caller_ip req) ms (rateMap w))
         \<and> doRegisterCheck H normalized (fst (chosen_proxy H ?w1)) 0 (snd (chosen_proxy H ?w1))
              = (res, w')
         \<and> \<not> truthy (error res)
         \<and> resp = \<lparr>code = 200,
                    json = OkJson
                      \<lparr>ok_number = trim (or_else (number b) (or_else (phone b) [])),
                       ok_normalized = normalized,
                       ok_banned = (banned res = Some True),
                       ok_statusCode = status res,
                       ok_raw = (if env_EXPOSE_RAW (env H) = Some ''1'' then raw res else None),
                       ok_proxy = (if truthy (fst (chosen_proxy H ?w1))
                                   then ''used'' else ''none'')\<rparr>\<rparr>"
    using h(3,4) r nt w3 resp by simp
  then show ?thesis by (intro exI) assumption
qed

lemma handler_sample_200:
  assumes "\<forall>k r. fetch H k r = Inr (st, tx)"
  shows "\<exists>resp w'. handler H 0 sample_post world0 = (Some resp, w') \<and> code resp = 200
            \<and> (\<exists>ok. json resp = OkJson ok)"
proof -
  have m: "req_method sample_post = ''POST''"
    by (simp add: sample_post_def)
  have a: "fst (allowedByRateLimit (env H) (caller_ip sample_post) 0 (rateMap world0))"
    by (simp add: allowedByRateLimit_def world0_def Let_def)
  have b: "req_body sample_post = Some \<lparr>number = Some ''+6281234567890'', phone = None\<rparr>"
    by (simp add: sample_post_def)
  have n: "normalizeNumber (trim (or_else (number \<lparr>number = Some ''+6281234567890'', phone = None\<rparr>)
                (or_else (phone \<lparr>number = Some ''+6281234567890'', phone = None\<rparr>) [])))
             = Some sample_number"
    by (simp add: or_else_def trim_def isWhiteSpace_def normalizeNumber_def startsWith_def
        digits_6_15_def isDigit_def sample_number_def)
  have f: "fetch H k r = Inr (st, tx)" for k r using assms by simp
  show ?thesis
    by (simp add: handler_probe[OF m a b n] Let_def doRegisterCheck_first_ok[OF f]
        classify_fields truthy_def)
qed

lemma host_up_answers: "\<forall>k r. fetch host_up k r = Inr (403, ''Unauthorized'')"
  by (simp add: host_up_def)

lemma host_raw_answers: "\<forall>k r. fetch host_raw k r = Inr (403, ''Unauthorized'')"
  by (simp add: host_raw_def host_up_def)

text \<open>
  Claim C4. When every call of the transport fails and \<open>MAX_RETRIES\<close> is a number
  \<open>m \<ge> 0\<close>, \<open>doRegisterCheck\<close> started with the counter 0 makes exactly \<open>m + 1\<close> attempts
  and returns the failure value with \<open>error = "network_error"\<close>; the handler, for a \<open>POST\<close>
  that passes the rate limiter with a valid number, then answers 502 with that value as
  details.
\<close>

theorem all_failures_exhaust_retries:
  assumes "\<forall>k r. isl (fetch H k r)"
    and "MAX_RETRIES (env H) = Num m"
    and "0 \<le> m"
  shows "(\<exists>e w'. doRegisterCheck H n p 0 w = (network_error e, w')
            \<and> error (network_error e) = Some ''network_error''
            \<and> int (length (sent w')) = int (length (sent w)) + (m + 1))
       \<and> (req_method req = ''POST''
            \<and> fst (allowedByRateLimit (env H) (caller_ip req) ms (rateMap v))
            \<and> req_body req = Some b
            \<and> normalizeNumber (trim (or_else (number b) (or_else (phone b) []))) = Some normalized
          \<longrightarrow> (\<exists>e v'. handler H ms req v
                          = (Some \<lparr>code = 502,
                                   json = FailedJson ''proxy_or_network_failed''
                                            (network_error e)\<rparr>, v')
                      \<and> int (length (sent v')) = int (length (sent v)) + (m + 1)))"
proof -
  have rem: "remaining H 0 = nat m" by (rule remaining_0[OF assms(2)])
  have one: "\<exists>e w'. doRegisterCheck H n p 0 w = (network_error e, w')
            \<and> error (network_error e) = Some ''network_error''
            \<and> int (length (sent w')) = int (length (sent w)) + (m + 1)"
    for n p w
    using doRegisterCheck_all_fail[OF assms(1), of n p 0 w] rem assms(3)
    by (auto simp: network_error_fields)
  have two: "\<exists>e v'. handler H ms req v
                          = (Some \<lparr>code = 502,
                                   json = FailedJson ''proxy_or_network_failed''
                                            (network_error e)\<rparr>, v')
                      \<and> int (length (sent v')) = int (length (sent v)) + (m + 1)"
    if h: "req_method req = ''POST''"
      "fst (allowedByRateLimit (env H) (caller_ip req) ms (rateMap v))"
      "req_body req = Some b"
      "normalizeNumber (trim (or_else (number b) (or_else (phone b) []))) = Some normalized"
  proof -
    let ?v1 = "v\<lparr>rateMap := snd (allowedByRateLimit (env H) (caller_ip req) ms (rateMap v))\<rparr>"
    let ?pw = "chosen_proxy H ?v1"
    from one[of normalized "fst ?pw" "snd ?pw"] obtain e v' where
      r: "doRegisterCheck H normalized (fst ?pw) 0 (snd ?pw) = (network_error e, v')"
      and l: "int (length (sent v')) = int (length (sent (snd ?pw))) + (m + 1)"
      by blast
    have "sent (snd ?pw) = sent v" using chosen_proxy_frame[of H ?v1] by simp
    with l have l': "int (length (sent v')) = int (length (sent v)) + (m + 1)" by simp
    have "handler H ms req v
            = (Some \<lparr>code = 502,
                     json = FailedJson ''proxy_or_network_failed'' (network_error e)\<rparr>, v')"
      by (simp add: handler_probe[OF h] Let_def r network_error_fields truthy_def)
    with l' show ?thesis by blast
  qed
  show ?thesis using one two by blast
qed

theorem all_failures_exhaust_retries_witness:
  "(\<forall>k r. isl (fetch host_down k r)) \<and> MAX_RETRIES (env host_down) = Num 2 \<and> (0::int) \<le> 2
   \<and> (\<exists>e w'. doRegisterCheck host_down sample_number None 0 world0 = (network_error e, w')
          \<and> length (sent w') = 3)
   \<and> (\<exists>e v'. handler host_down 0 sample_post world0
                 = (Some \<lparr>code = 502,
                          json = FailedJson ''proxy_or_network_failed'' (network_error e)\<rparr>, v')
          \<and> length (sent v') = 3)"
proof -
  have z: "(0::int) \<le> 2" by simp
  have m: "req_method sample_post = ''POST''"
    by (simp add: sample_post_def)
  have a: "fst (allowedByRateLimit (env host_down) (caller_ip sample_post) 0 (rateMap world0))"
    by (simp add: allowedByRateLimit_def world0_def Let_def)
  have b: "req_body sample_post = Some \<lparr>number = Some ''+6281234567890'', phone = None\<rparr>"
    by (simp add: sample_post_def)
  have n: "normalizeNumber (trim (or_else (number \<lparr>number = Some ''+6281234567890'', phone = None\<rparr>)
                (or_else (phone \<lparr>number = Some ''+6281234567890'', phone = None\<rparr>) [])))
             = Some sample_number"
    by (simp add: or_else_def trim_def isWhiteSpace_def normalizeNumber_def startsWith_def
        digits_6_15_def isDigit_def sample_number_def)
  note inst = all_failures_exhaust_retries[OF host_down_fails host_down_retries z,
      of sample_number None world0 sample_post 0 world0
         "\<lparr>number = Some ''+6281234567890'', phone = None\<rparr>" sample_number]
  have s0: "sent world0 = []" by (simp add: world0_def)
  from inst have p1: "\<exists>e w'. doRegisterCheck host_down sample_number None 0 world0
                                = (network_error e, w') \<and> length (sent w') = 3"
    unfolding s0 by auto
  from inst m a b n
  have p2: "\<exists>e v'. handler host_down 0 sample_post world0
                 = (Some \<lparr>code = 502,
                          json = FailedJson ''proxy_or_network_failed'' (network_error e)\<rparr>, v')
          \<and> length (sent v') = 3"
    unfolding s0 by auto
  show ?thesis using host_down_fails host_down_retries z p1 p2 by blast
qed

lemma pick_in_range:
  assumes "\<forall>i n. 0 < n \<longrightarrow> random_floor H i n < n" and "arr \<noteq> []"
  shows "pick H arr d = Some (arr ! random_floor H d (length arr))"
  using assms by (simp add: pick_def)

lemma options_not_empty: "UA_LIST \<noteq> []" "MCC_OPTIONS \<noteq> []" "MNC_OPTIONS \<noteq> []"
  by (simp_all add: UA_LIST_def MCC_OPTIONS_def MNC_OPTIONS_def)

lemma host_down_random: "\<forall>i n. 0 < n \<longrightarrow> random_floor host_down i n < n"
  by (simp add: host_down_def)

text \<open>
  Claim C6. With \<open>Math.random\<close> in its range: every request that one probe hands to the
  transport carries the same proxy agent, the one of the \<open>proxyUrl\<close> the probe was started
  with; the user agent, \<open>mcc\<close> and \<open>mnc\<close> of its \<open>j\<close>-th attempt are the entries of
  \<open>UA_LIST\<close>, \<open>MCC_OPTIONS\<close> and \<open>MNC_OPTIONS\<close> selected by draws of that attempt's own
  (the draws \<open>5j\<close>, \<open>5j + 1\<close> and \<open>5j + 2\<close> after the start of the probe); and a probe of
  \<open>a\<close> attempts makes \<open>5a - 1\<close> draws. So each attempt, the retries included, samples
  its identity afresh.
\<close>

theorem proxy_fixed_identity_fresh:
  assumes "\<forall>i n. 0 < n \<longrightarrow> random_floor H i n < n"
    and "doRegisterCheck H n p retries w = (res, w')"
  shows "take (length (sent w)) (sent w') = sent w
       \<and> length (sent w) < length (sent w')
       \<and> draws w' + 1 = draws w + 5 * (length (sent w') - length (sent w))
       \<and> (\<forall>j. length (sent w) + j < length (sent w') \<longrightarrow>
             agent (sent w' ! (length (sent w) + j))
               = (if truthy p \<and> proxy_agent_ok H (the p) then p else None)
           \<and> map_of (headers (sent w' ! (length (sent w) + j))) ''User-Agent''
               = Some (Some (UA_LIST ! random_floor H (draws w + 5 * j) (length UA_LIST)))
           \<and> map_of (body (sent w' ! (length (sent w) + j))) ''mcc''
               = Some (MCC_OPTIONS ! random_floor H (draws w + 5 * j + 1) (length MCC_OPTIONS))
           \<and> map_of (body (sent w' ! (length (sent w) + j))) ''mnc''
               = Some (MNC_OPTIONS ! random_floor H (draws w + 5 * j + 2) (length MNC_OPTIONS)))"
proof -
  from doRegisterCheck_trace[OF assms(2)] obtain k where
    s: "sent w' = sent w @ probe_requests H n p (draws w) (Suc k)"
    and d: "draws w' = draws w + 5 * k + 4"
    by blast
  have len: "length (sent w') = length (sent w) + Suc k"
    using s by (simp add: length_probe_requests)
  have tk: "take (length (sent w)) (sent w') = sent w" using s by simp
  have lt: "length (sent w) < length (sent w')" using len by simp
  have dr: "draws w' + 1 = draws w + 5 * (length (sent w') - length (sent w))"
    using d len by simp
  have nth: "sent w' ! (length (sent w) + j) = attempt_request H n p (draws w + 5 * j)"
    if "j \<le> k" for j
    using that s by (simp add: nth_append probe_requests_nth)
  have each: "agent (sent w' ! (length (sent w) + j))
               = (if truthy p \<and> proxy_agent_ok H (the p) then p else None)
           \<and> map_of (headers (sent w' ! (length (sent w) + j))) ''User-Agent''
               = Some (Some (UA_LIST ! random_floor H (draws w + 5 * j) (length UA_LIST)))
           \<and> map_of (body (sent w' ! (length (sent w) + j))) ''mcc''
               = Some (MCC_OPTIONS ! random_floor H (draws w + 5 * j + 1) (length MCC_OPTIONS))
           \<and> map_of (body (sent w' ! (length (sent w) + j))) ''mnc''
               = Some (MNC_OPTIONS ! random_floor H (draws w + 5 * j + 2) (length MNC_OPTIONS))"
    if "length (sent w) + j < length (sent w')" for j
  proof -
    have "j \<le> k" using that len by simp
    show ?thesis
      unfolding nth[OF \<open>j \<le> k\<close>] attempt_request_agent attempt_request_ua attempt_request_mcc
        attempt_request_mnc
        pick_in_range[OF assms(1) options_not_empty(1)]
        pick_in_range[OF assms(1) options_not_empty(2)]
        pick_in_range[OF assms(1) options_not_empty(3)]
      by (simp add: proxy_agent_def add_ac)
  qed
  show ?thesis using tk lt dr each by blast
qed

theorem proxy_fixed_identity_fresh_witness:
  "length (sent (snd (doRegisterCheck host_down sample_number (Some ''http://a:8000'') 0 world0)))
     = 3
   \<and> agent (sent (snd (doRegisterCheck host_down sample_number (Some ''http://a:8000'') 0 world0))
              ! 0) = Some ''http://a:8000''
   \<and> agent (sent (snd (doRegisterCheck host_down sample_number (Some ''http://a:8000'') 0 world0))
              ! 1) = Some ''http://a:8000''
   \<and> map_of (headers (sent (snd (doRegisterCheck host_down sample_number
                                    (Some ''http://a:8000'') 0 world0)) ! 0)) ''User-Agent''
       = Some (Some ''WhatsApp/2.23.8.76 Android/13 Device/Pixel'')
   \<and> map_of (headers (sent (snd (doRegisterCheck host_down sample_number
                                    (Some ''http://a:8000'') 0 world0)) ! 1)) ''User-Agent''
       = Some (Some ''WhatsApp/2.22.18 Android/12 Device/Generic'')
   \<and> map_of (body (sent (snd (doRegisterCheck host_down sample_number
                                 (Some ''http://a:8000'') 0 world0)) ! 0)) ''mcc'' = Some ''440''
   \<and> map_of (body (sent (snd (doRegisterCheck host_down sample_number
                                 (Some ''http://a:8000'') 0 world0)) ! 1)) ''mcc'' = Some ''505''
   \<and> map_of (body (sent (snd (doRegisterCheck host_down sample_number
                                 (Some ''http://a:8000'') 0 world0)) ! 0)) ''mnc'' = Some ''10''
   \<and> map_of (body (sent (snd (doRegisterCheck host_down sample_number
                                 (Some ''http://a:8000'') 0 world0)) ! 1)) ''mnc'' = Some ''01''"
proof -
  let ?p = "Some ''http://a:8000''"
  obtain e W where r: "doRegisterCheck host_down sample_number ?p 0 world0 = (network_error e, W)"
    and l: "length (sent W) = length (sent world0) + remaining host_down 0 + 1"
    using doRegisterCheck_all_fail[OF host_down_fails, of sample_number ?p 0 world0] by blast
  have l3: "length (sent W) = 3"
    using l by (simp add: remaining_0[OF host_down_retries] world0_def)
  note inst = proxy_fixed_identity_fresh[OF host_down_random r]
  note each = inst[THEN conjunct2, THEN conjunct2, THEN conjunct2, rule_format]
  have w0: "length (sent world0) = 0" "draws world0 = 0" by (simp_all add: world0_def)
  have lt0: "length (sent world0) + 0 < length (sent W)" using l3 by (simp add: w0)
  have lt1: "length (sent world0) + 1 < length (sent W)" using l3 by (simp add: w0)
  have j0: "agent (sent W ! 0) = ?p
      \<and> map_of (headers (sent W ! 0)) ''User-Agent''
          = Some (Some ''WhatsApp/2.23.8.76 Android/13 Device/Pixel'')
      \<and> map_of (body (sent W ! 0)) ''mcc'' = Some ''440''
      \<and> map_of (body (sent W ! 0)) ''mnc'' = Some ''10''"
    using each[OF lt0]
    by (simp add: w0 truthy_def host_down_def UA_LIST_def MCC_OPTIONS_def MNC_OPTIONS_def)
  have j1: "agent (sent W ! 1) = ?p
      \<and> map_of (headers (sent W ! 1)) ''User-Agent''
          = Some (Some ''WhatsApp/2.22.18 Android/12 Device/Generic'')
      \<and> map_of (body (sent W ! 1)) ''mcc'' = Some ''505''
      \<and> map_of (body (sent W ! 1)) ''mnc'' = Some ''01''"
    using each[OF lt1]
    by (simp add: w0 truthy_def host_down_def UA_LIST_def MCC_OPTIONS_def MNC_OPTIONS_def)
  show ?thesis unfolding r snd_conv using l3 j0 j1 by simp
qed

text \<open>
  Claim C8. In a 200 response the field \<open>raw\<close> is the body of the upstream response that
  was classified when \<open>EXPOSE_RAW\<close> is \<open>1\<close>, and undefined when the variable is unset or has
  any other value.
\<close>

theorem raw_only_when_exposed:
  assumes "handler H ms req w = (Some resp, w')" and "code resp = 200"
  shows "\<exists>ok st tx. json resp = OkJson ok \<and> sent w' \<noteq> []
           \<and> fetch H (length (sent w') - 1) (last (sent w')) = Inr (st, tx)
           \<and> ok_raw ok = (if env_EXPOSE_RAW (env H) = Some ''1'' then Some tx else None)"
proof -
  from handler_ok_result[OF assms(1)] assms(2) obtain b normalized w1 res where
    rb: "req_body req = Some b" and
    r: "doRegisterCheck H normalized (fst (chosen_proxy H w1)) 0 (snd (chosen_proxy H w1))
          = (res, w')"
    and nt: "\<not> truthy (error res)"
    and resp: "resp = \<lparr>code = 200,
                    json = OkJson
                      \<lparr>ok_number = trim (or_else (number b) (or_else (phone b) [])),
                       ok_normalized = normalized,
                       ok_banned = (banned res = Some True),
                       ok_statusCode = status res,
                       ok_raw = (if env_EXPOSE_RAW (env H) = Some ''1'' then raw res else None),
                       ok_proxy = (if truthy (fst (chosen_proxy H w1))
                                   then ''used'' else ''none'')\<rparr>\<rparr>"
    by blast
  from doRegisterCheck_ok_result[OF r nt] obtain st tx where
    c: "res = classify st tx" "sent w' \<noteq> []"
       "fetch H (length (sent w') - 1) (last (sent w')) = Inr (st, tx)"
    by blast
  have "raw res = Some tx" using c(1) by (simp add: classify_fields)
  then show ?thesis using resp c(2,3) by simp
qed

theorem raw_only_when_exposed_witness:
  "(\<exists>resp w' ok. handler host_raw 0 sample_post world0 = (Some resp, w') \<and> code resp = 200
        \<and> json resp = OkJson ok \<and> ok_raw ok = Some ''Unauthorized'')
   \<and> (\<exists>resp w' ok. handler host_up 0 sample_post world0 = (Some resp, w') \<and> code resp = 200
        \<and> json resp = OkJson ok \<and> ok_raw ok = None)"
proof -
  from handler_sample_200[OF host_raw_answers] obtain resp w' where
    h: "handler host_raw 0 sample_post world0 = (Some resp, w')" "code resp = 200"
    by blast
  from raw_only_when_exposed[OF h] obtain ok st tx where
    "json resp = OkJson ok"
    "fetch host_raw (length (sent w') - 1) (last (sent w')) = Inr (st, tx)"
    "ok_raw ok = (if env_EXPOSE_RAW (env host_raw) = Some ''1'' then Some tx else None)"
    by blast
  then have "json resp = OkJson ok \<and> ok_raw ok = Some ''Unauthorized''"
    using host_raw_answers by (simp add: host_raw_def host_up_def default_env_def)
  with h have one: "\<exists>resp w' ok. handler host_raw 0 sample_post world0 = (Some resp, w')
        \<and> code resp = 200 \<and> json resp = OkJson ok \<and> ok_raw ok = Some ''Unauthorized''"
    by blast
  from handler_sample_200[OF host_up_answers] obtain resp2 w2 where
    h2: "handler host_up 0 sample_post world0 = (Some resp2, w2)" "code resp2 = 200"
    by blast
  from raw_only_when_exposed[OF h2] obtain ok2 st2 tx2 where
    "json resp2 = OkJson ok2"
    "ok_raw ok2 = (if env_EXPOSE_RAW (env host_up) = Some ''1'' then Some tx2 else None)"
    by blast
  then have "json resp2 = OkJson ok2 \<and> ok_raw ok2 = None"
    by (simp add: host_up_def default_env_def)
  with h2 have two: "\<exists>resp w' ok. handler host_up 0 sample_post world0 = (Some resp, w')
        \<and> code resp = 200 \<and> json resp = OkJson ok \<and> ok_raw ok = None"
    by blast
  show ?thesis using one two by blast
qed

text \<open>
  Claim C5. An attempt whose transport call returns a response ends the probe: the
  result is the classification of that response's status and body, whatever the status,
  and no further request is sent. Every request of a probe but the last one met a
  transport failure, and a result that carries an error means that the last request failed
  too and that every retry the counter allowed had been made.
\<close>

theorem valid_response_ends_probe:
  "(fetch H (length (sent w)) (attempt_request H n p (draws w)) = Inr (st, tx) \<longrightarrow>
      doRegisterCheck H n p retries w
        = (classify st tx,
           w\<lparr>draws := draws w + 4, sent := sent w @ [attempt_request H n p (draws w)]\<rparr>))
   \<and> (doRegisterCheck H n p retries w = (res, w') \<longrightarrow>
        take (length (sent w)) (sent w') = sent w
      \<and> length (sent w) < length (sent w')
      \<and> (\<forall>i. length (sent w) \<le> i \<and> Suc i < length (sent w') \<longrightarrow> isl (fetch H i (sent w' ! i)))
      \<and> (error res \<noteq> None \<longrightarrow>
            isl (fetch H (length (sent w') - 1) (last (sent w')))
          \<and> length (sent w') = length (sent w) + remaining H retries + 1))"
proof -
  have part2: "take (length (sent w)) (sent w') = sent w
      \<and> length (sent w) < length (sent w')
      \<and> (\<forall>i. length (sent w) \<le> i \<and> Suc i < length (sent w') \<longrightarrow> isl (fetch H i (sent w' ! i)))
      \<and> (error res \<noteq> None \<longrightarrow>
            isl (fetch H (length (sent w') - 1) (last (sent w')))
          \<and> length (sent w') = length (sent w) + remaining H retries + 1)"
    if r: "doRegisterCheck H n p retries w = (res, w')"
  proof -
    from doRegisterCheck_trace[OF r] obtain k where k: "k \<le> remaining H retries"
      and s: "sent w' = sent w @ probe_requests H n p (draws w) (Suc k)"
      and fl: "\<forall>j<k. isl (fetch H (length (sent w) + j)
                              (attempt_request H n p (draws w + 5 * j)))"
      and fin: "case fetch H (length (sent w) + k) (attempt_request H n p (draws w + 5 * k)) of
                 Inr (st, tx) \<Rightarrow> res = classify st tx
               | Inl e \<Rightarrow> k = remaining H retries \<and> res = network_error e"
      by blast
    have len: "length (sent w') = length (sent w) + Suc k"
      using s by (simp add: length_probe_requests)
    have nth: "sent w' ! (length (sent w) + j) = attempt_request H n p (draws w + 5 * j)"
      if "j \<le> k" for j
      using that s by (simp add: nth_append probe_requests_nth)
    have a: "take (length (sent w)) (sent w') = sent w" using s by simp
    have b: "length (sent w) < length (sent w')" using len by simp
    have c: "isl (fetch H i (sent w' ! i))"
      if "length (sent w) \<le> i \<and> Suc i < length (sent w')" for i
    proof -
      define j where "j = i - length (sent w)"
      have j: "i = length (sent w) + j" "j < k"
        using that len unfolding j_def by auto
      then show ?thesis using fl nth[of j] by simp
    qed
    have lst: "last (sent w') = attempt_request H n p (draws w + 5 * k)"
      using s by (simp add: probe_requests_def)
    have d: "isl (fetch H (length (sent w') - 1) (last (sent w')))
          \<and> length (sent w') = length (sent w) + remaining H retries + 1"
      if "error res \<noteq> None"
    proof (cases "fetch H (length (sent w) + k) (attempt_request H n p (draws w + 5 * k))")
      case (Inl e)
      then have "k = remaining H retries" using fin by simp
      then show ?thesis using Inl len lst by simp
    next
      case (Inr x)
      then have "error res = None" using fin by (auto simp: classify_fields split: prod.splits)
      with that show ?thesis by simp
    qed
    show ?thesis
      apply (intro conjI allI impI)
      subgoal by (rule a)
      subgoal by (rule b)
      subgoal for i by (rule c)
      subgoal using d by blast
      subgoal using d by blast
      done
  qed
  have part1: "doRegisterCheck H n p retries w
        = (classify st tx,
           w\<lparr>draws := draws w + 4, sent := sent w @ [attempt_request H n p (draws w)]\<rparr>)"
    if "fetch H (length (sent w)) (attempt_request H n p (draws w)) = Inr (st, tx)"
    by (rule doRegisterCheck_first_ok[OF that])
  show ?thesis
    apply (rule conjI)
    subgoal using part1 by (rule impI)
    subgoal using part2 by (rule impI)
    done
qed

theorem valid_response_ends_probe_witness:
  "fetch host_up (length (sent world0)) (attempt_request host_up sample_number None (draws world0))
     = Inr (403, ''Unauthorized'')
   \<and> fst (doRegisterCheck host_up sample_number None 0 world0) = classify 403 ''Unauthorized''
   \<and> length (sent (snd (doRegisterCheck host_up sample_number None 0 world0))) = 1
   \<and> error (fst (doRegisterCheck host_down sample_number None 0 world0)) \<noteq> None
   \<and> length (sent (snd (doRegisterCheck host_down sample_number None 0 world0)))
       = length (sent world0) + remaining host_down 0 + 1
   \<and> isl (fetch host_down 0
              (sent (snd (doRegisterCheck host_down sample_number None 0 world0)) ! 0))"
proof -
  have f: "fetch host_up (length (sent world0))
             (attempt_request host_up sample_number None (draws world0))
           = Inr (403, ''Unauthorized'')"
    by (simp add: host_up_def)
  note inst1 = valid_response_ends_probe[where H = host_up and w = world0
      and n = sample_number and p = None and st = 403 and tx = "''Unauthorized''"
      and retries = 0]
  from inst1 f have up: "doRegisterCheck host_up sample_number None 0 world0
        = (classify 403 ''Unauthorized'',
           world0\<lparr>draws := draws world0 + 4,
                    sent := sent world0 @ [attempt_request host_up sample_number None (draws world0)]\<rparr>)"
    by blast
  have a: "fst (doRegisterCheck host_up sample_number None 0 world0) = classify 403 ''Unauthorized''"
    and b: "length (sent (snd (doRegisterCheck host_up sample_number None 0 world0))) = 1"
    unfolding up by (simp_all add: world0_def)
  from doRegisterCheck_all_fail[OF host_down_fails, of sample_number None 0 world0]
  obtain e w' where d: "doRegisterCheck host_down sample_number None 0 world0 = (network_error e, w')"
    by blast
  have en: "error (network_error e) \<noteq> None" by (simp add: network_error_def)
  note inst2 = valid_response_ends_probe[where H = host_down and w = world0
      and n = sample_number and p = None and retries = 0 and res = "network_error e" and w' = w']
  from inst2 d en
  have l: "length (sent w') = length (sent world0) + remaining host_down 0 + 1" by blast
  then have c: "error (fst (doRegisterCheck host_down sample_number None 0 world0)) \<noteq> None"
    and c': "length (sent (snd (doRegisterCheck host_down sample_number None 0 world0)))
       = length (sent world0) + remaining host_down 0 + 1"
    using en unfolding d by simp_all
  have "remaining host_down 0 = 2"
    by (simp add: remaining_0[OF host_down_retries])
  with l have "length (sent world0) \<le> 0 \<and> Suc 0 < length (sent w')"
    by (simp add: world0_def)
  with inst2 d have "isl (fetch host_down 0 (sent w' ! 0))" by blast
  then have c'': "isl (fetch host_down 0
              (sent (snd (doRegisterCheck host_down sample_number None 0 world0)) ! 0))"
    unfolding d by simp
  show ?thesis using f a b c c' c'' by blast
qed

text \<open>
  Claim C9. A request whose method is not \<open>POST\<close> is answered with 405 and leaves the
  whole state of the process as it was, the rate limiter's map included: no record is
  created and none is counted up. The same holds for the handler of
  \<open>src/api/check-ban.js\<close>, which has no rate limiter.
\<close>

theorem non_post_rejected_untouched:
  assumes "req_method req \<noteq> ''POST''"
  shows "handler H ms req w
           = (Some \<lparr>code = 405, json = ErrorJson ''Method not allowed'' None\<rparr>, w)
       \<and> handler_simple H req w
           = (Some \<lparr>code = 405, json = ErrorJson ''Method not allowed'' None\<rparr>, w)
       \<and> rateMap (snd (handler H ms req w)) = rateMap w"
  using assms by (simp add: handler_def handler_simple_def)

theorem non_post_rejected_untouched_witness:
  "req_method sample_get \<noteq> ''POST''
   \<and> handler host_up 0 sample_get world0
       = (Some \<lparr>code = 405, json = ErrorJson ''Method not allowed'' None\<rparr>, world0)
   \<and> handler_simple host_up sample_get world0
       = (Some \<lparr>code = 405, json = ErrorJson ''Method not allowed'' None\<rparr>, world0)"
proof -
  have a: "req_method sample_get \<noteq> ''POST''"
    by (simp add: sample_get_def sample_post_def)
  from non_post_rejected_untouched[OF a, of host_up 0 world0] a
  show ?thesis by blast
qed

lemma proxy_list_nonempty_entries: "\<forall>u \<in> set (proxy_list E). u \<noteq> []"
  by (simp add: proxy_list_def)

lemma chosen_proxy_truthy:
  assumes "\<forall>d n. 0 < n \<longrightarrow> random_floor H d n < n"
  shows "truthy (fst (chosen_proxy H w1)) \<longleftrightarrow> proxy_list (env H) \<noteq> []"
proof (cases "proxy_list (env H) = []")
  case True
  then show ?thesis by (simp add: chosen_proxy_def truthy_def)
next
  case False
  let ?ps = "proxy_list (env H)"
  have i: "random_floor H (draws w1) (length ?ps) < length ?ps"
    using assms False by simp
  then have "?ps ! random_floor H (draws w1) (length ?ps) \<in> set ?ps" by simp
  then have "?ps ! random_floor H (draws w1) (length ?ps) \<noteq> []"
    using proxy_list_nonempty_entries by blast
  then show ?thesis
    using False i by (simp add: chosen_proxy_def pickRandom_def Let_def truthy_def)
qed

lemma ok_fields:
  assumes "\<forall>d n. 0 < n \<longrightarrow> random_floor H d n < n"
    and "handler H ms req w = (Some resp, w')" and "json resp = OkJson ok"
  shows "ok_proxy ok = (if proxy_list (env H) = [] then ''none'' else ''used'')
       \<and> (env_EXPOSE_RAW (env H) \<noteq> Some ''1'' \<longrightarrow>
            ok_raw ok = None
          \<and> (\<exists>b. req_body req = Some b
                 \<and> ok_number ok = trim (or_else (number b) (or_else (phone b) []))
                 \<and> normalizeNumber (ok_number ok) = Some (ok_normalized ok)))"
proof -
  have "code resp = 200 \<or> (\<exists>ok. json resp = OkJson ok)" using assms(3) by blast
  from handler_ok_result[OF assms(2) this] obtain b normalized w1 res where
    rb: "req_body req = Some b" and
    nn: "normalizeNumber (trim (or_else (number b) (or_else (phone b) []))) = Some normalized" and
    r: "doRegisterCheck H normalized (fst (chosen_proxy H w1)) 0 (snd (chosen_proxy H w1))
          = (res, w')" and
    resp: "resp = \<lparr>code = 200,
                    json = OkJson
                      \<lparr>ok_number = trim (or_else (number b) (or_else (phone b) [])),
                       ok_normalized = normalized,
                       ok_banned = (banned res = Some True),
                       ok_statusCode = status res,
                       ok_raw = (if env_EXPOSE_RAW (env H) = Some ''1'' then raw res else None),
                       ok_proxy = (if truthy (fst (chosen_proxy H w1))
                                   then ''used'' else ''none'')\<rparr>\<rparr>"
    by blast
  from resp assms(3) have ok: "ok = \<lparr>ok_number = trim (or_else (number b) (or_else (phone b) [])),
                       ok_normalized = normalized,
                       ok_banned = (banned res = Some True),
                       ok_statusCode = status res,
                       ok_raw = (if env_EXPOSE_RAW (env H) = Some ''1'' then raw res else None),
                       ok_proxy = (if truthy (fst (chosen_proxy H w1))
                                   then ''used'' else ''none'')\<rparr>"
    by auto
  have p: "ok_proxy ok = (if proxy_list (env H) = [] then ''none'' else ''used'')"
    unfolding ok by (simp add: chosen_proxy_truthy[OF assms(1)])
  have q: "ok_raw ok = None
          \<and> (\<exists>b. req_body req = Some b
                 \<and> ok_number ok = trim (or_else (number b) (or_else (phone b) []))
                 \<and> normalizeNumber (ok_number ok) = Some (ok_normalized ok))"
    if "env_EXPOSE_RAW (env H) \<noteq> Some ''1''"
    using that rb nn unfolding ok by simp
  show ?thesis using p q by blast
qed

lemma sample_random_in_range:
  "\<forall>d n. 0 < n \<longrightarrow> random_floor host_up d n < n"
  "\<forall>d n. 0 < n \<longrightarrow> random_floor host_raw d n < n"
  by (simp_all add: host_up_def host_raw_def)

lemma sample_proxy_lists:
  "proxy_list (env host_up) = [''http://a:8000'', ''http://b:8000'']"
  "proxy_list (env host_raw) = [''http://c:3128'']"
  by (simp_all add: host_up_def host_raw_def default_env_def proxy_list_def or_else_def
      trim_def isWhiteSpace_def)

lemma sample_post_facts:
  "req_method sample_post = ''POST''"
  "fst (allowedByRateLimit E (caller_ip sample_post) 0 (rateMap world0))"
  "req_body sample_post = Some \<lparr>number = Some ''+6281234567890'', phone = None\<rparr>"
  "normalizeNumber (trim (or_else (number \<lparr>number = Some ''+6281234567890'', phone = None\<rparr>)
                (or_else (phone \<lparr>number = Some ''+6281234567890'', phone = None\<rparr>) [])))
     = Some sample_number"
  "trim (or_else (number \<lparr>number = Some ''+6281234567890'', phone = None\<rparr>)
                (or_else (phone \<lparr>number = Some ''+6281234567890'', phone = None\<rparr>) []))
     = ''+6281234567890''"
  by (simp_all add: sample_post_def allowedByRateLimit_def world0_def Let_def
        or_else_def trim_def isWhiteSpace_def normalizeNumber_def startsWith_def
        digits_6_15_def isDigit_def sample_number_def)

lemma host_echo_proxy: "proxy_list (env host_echo) = [''http://c:3128'']"
  by (simp add: host_echo_def default_env_def proxy_list_def or_else_def trim_def
      isWhiteSpace_def)

lemma host_echo_chosen:
  "draws w1 = 0 \<Longrightarrow> fst (chosen_proxy host_echo w1) = Some ''http://c:3128''"
  by (simp add: chosen_proxy_def host_echo_proxy pickRandom_def Let_def)
     (simp add: host_echo_def)

lemma host_echo_answer:
  "fetch host_echo k (attempt_request host_echo n (Some ''http://c:3128'') d)
     = Inr (200, ''via http://c:3128'')"
  by (simp add: attempt_request_def proxy_agent_def truthy_def host_echo_def)

lemma echo_classified:
  "classify 200 ''via http://c:3128'' = verdict False ''via http://c:3128'' 200"
  by code_simp

text \<open>
  Claim C10, as amended. With \<open>Math.random\<close> in its range, the field \<open>proxy\<close> of a 200
  response is \<open>"none"\<close> when the proxy list is empty and \<open>"used"\<close> otherwise, whichever proxy
  was selected, so the field is the same for any two non-empty proxy lists; and when
  \<open>EXPOSE_RAW\<close> is not \<open>1\<close>, \<open>raw\<close> is undefined and \<open>number\<close> and \<open>normalized\<close> are computed
  from the request body alone.
\<close>

theorem proxy_field_hides_url:
  assumes "\<forall>d n. 0 < n \<longrightarrow> random_floor H1 d n < n"
    and "\<forall>d n. 0 < n \<longrightarrow> random_floor H2 d n < n"
    and "handler H1 ms1 req1 w1 = (Some resp1, w1')" and "json resp1 = OkJson ok1"
    and "handler H2 ms2 req2 w2 = (Some resp2, w2')" and "json resp2 = OkJson ok2"
  shows "ok_proxy ok1 = (if proxy_list (env H1) = [] then ''none'' else ''used'')
       \<and> (proxy_list (env H1) \<noteq> [] \<and> proxy_list (env H2) \<noteq> [] \<longrightarrow> ok_proxy ok1 = ok_proxy ok2)
       \<and> (env_EXPOSE_RAW (env H1) \<noteq> Some ''1'' \<longrightarrow>
            ok_raw ok1 = None
          \<and> (\<exists>b. req_body req1 = Some b
                 \<and> ok_number ok1 = trim (or_else (number b) (or_else (phone b) []))
                 \<and> normalizeNumber (ok_number ok1) = Some (ok_normalized ok1)))"
  using ok_fields[OF assms(1,3,4)] ok_fields[OF assms(2,5,6)] by simp

theorem proxy_field_hides_url_witness:
  "proxy_list (env host_up) \<noteq> [] \<and> proxy_list (env host_raw) \<noteq> []
   \<and> proxy_list (env host_up) \<noteq> proxy_list (env host_raw)
   \<and> env_EXPOSE_RAW (env host_up) \<noteq> Some ''1''
   \<and> (\<exists>resp1 v1 ok1 resp2 v2 ok2.
         handler host_up 0 sample_post world0 = (Some resp1, v1) \<and> json resp1 = OkJson ok1
       \<and> handler host_raw 0 sample_post world0 = (Some resp2, v2) \<and> json resp2 = OkJson ok2
       \<and> ok_proxy ok1 = ''used'' \<and> ok_proxy ok2 = ''used''
       \<and> ok_raw ok1 = None \<and> ok_number ok1 = ''+6281234567890'')"
proof -
  from handler_sample_200[OF host_up_answers] obtain resp1 v1 ok1 where
    h1: "handler host_up 0 sample_post world0 = (Some resp1, v1)" "json resp1 = OkJson ok1"
    by blast
  from handler_sample_200[OF host_raw_answers] obtain resp2 v2 ok2 where
    h2: "handler host_raw 0 sample_post world0 = (Some resp2, v2)" "json resp2 = OkJson ok2"
    by blast
  have ne: "proxy_list (env host_up) \<noteq> []" "proxy_list (env host_raw) \<noteq> []"
    "proxy_list (env host_up) \<noteq> proxy_list (env host_raw)"
    by (simp_all add: sample_proxy_lists)
  have off: "env_EXPOSE_RAW (env host_up) \<noteq> Some ''1''"
    by (simp add: host_up_def default_env_def)
  note inst = proxy_field_hides_url[OF sample_random_in_range(1) sample_random_in_range(2) h1 h2]
  from inst ne have u: "ok_proxy ok1 = ''used''" "ok_proxy ok1 = ok_proxy ok2" by auto
  from inst off obtain b where "ok_raw ok1 = None" "req_body sample_post = Some b"
    "ok_number ok1 = trim (or_else (number b) (or_else (phone b) []))"
    by blast
  then have r: "ok_raw ok1 = None" "ok_number ok1 = ''+6281234567890''"
    using sample_post_facts(3,5) by simp_all
  have "ok_proxy ok1 = ''used'' \<and> ok_proxy ok2 = ''used''
        \<and> ok_raw ok1 = None \<and> ok_number ok1 = ''+6281234567890''"
    using u r by simp
  with h1 h2 ne off show ?thesis by blast
qed

text \<open>
  Claim C10 as stated fails where it says that the selected proxy URL never appears in the
  response: with \<open>EXPOSE_RAW=1\<close> the field \<open>raw\<close> is the upstream body, and an upstream that
  names the proxy it was reached through puts the URL into the 200 response.
\<close>

theorem proxy_url_in_raw:
  "proxy_list (env host_echo) = [''http://c:3128'']
   \<and> fst (handler host_echo 0 sample_post world0)
       = Some \<lparr>code = 200,
                json = OkJson \<lparr>ok_number = ''+6281234567890'',
                               ok_normalized = sample_number,
                               ok_banned = False,
                               ok_statusCode = Some 200,
                               ok_raw = Some ''via http://c:3128'',
                               ok_proxy = ''used''\<rparr>\<rparr>"
proof -
  let ?w1 = "world0\<lparr>rateMap := snd (allowedByRateLimit (env host_echo) (caller_ip sample_post) 0
                                    (rateMap world0))\<rparr>"
  have d: "draws ?w1 = 0" by (simp add: world0_def)
  have c: "fst (chosen_proxy host_echo ?w1) = Some ''http://c:3128''"
    by (rule host_echo_chosen[OF d])
  have e: "env_EXPOSE_RAW (env host_echo) = Some ''1''"
    by (simp add: host_echo_def default_env_def)
  have "fst (handler host_echo 0 sample_post world0)
       = Some \<lparr>code = 200,
                json = OkJson \<lparr>ok_number = ''+6281234567890'',
                               ok_normalized = sample_number,
                               ok_banned = False,
                               ok_statusCode = Some 200,
                               ok_raw = Some ''via http://c:3128'',
                               ok_proxy = ''used''\<rparr>\<rparr>"
    unfolding handler_probe[OF sample_post_facts(1-4)] Let_def c
      doRegisterCheck_first_ok[OF host_echo_answer] echo_classified sample_post_facts(5)
    by (simp add: verdict_def truthy_def e)
  then show ?thesis using host_echo_proxy by simp
qed

end
